theory Spec2Isabelle
  imports Complex_Main
begin

section \<open>Data model\<close>

text \<open>
  The two scripts \<^verbatim>\<open>example/stock_agent_drop_in.py\<close> (class
  \<^verbatim>\<open>RedditSentimentClient\<close>) and \<^verbatim>\<open>example/stock_sentiment_scraper.py\<close> (class
  \<^verbatim>\<open>StockSentimentScraper\<close>) sit on top of an external scraper, the collaborator
  \<^verbatim>\<open>self.miner\<close>. The collaborator is opaque: it is a parameter of the model.

  A post is a Python dict. \<^verbatim>\<open>search_ticker\<close> writes into the dicts the collaborator
  hands over (\<^verbatim>\<open>post['subreddit'] = sub\<close>), so posts are objects in a store and the
  lists that are passed around hold their addresses. Two positions of a list that hold
  the same address are the same dict object.

  Nothing in the scripts checks what a result list of a search holds. An element is a
  post or, when the collaborator breaks its interface, a value that is no dict
  (\<^verbatim>\<open>None\<close>, a number, a string): item assignment on such a value and \<^verbatim>\<open>**\<close> unpacking of
  it raise \<^verbatim>\<open>TypeError\<close>.
\<close>

datatype pyval = PNone | PBool bool | PInt int | PStr string

type_synonym 'k pydict = "('k \<times> pyval) list"

type_synonym addr = nat

type_synonym store = "addr \<Rightarrow> string pydict"

datatype item = Post addr | NonDict pyval

text \<open>
  A dict is an association list in insertion order. \<^verbatim>\<open>d[k] = v\<close> replaces the value of
  a key that is present and appends a key that is not; \<^verbatim>\<open>d.get(k)\<close> is \<open>map_of d k\<close>.
\<close>

fun dict_set :: "'k \<Rightarrow> 'v \<Rightarrow> ('k \<times> 'v) list \<Rightarrow> ('k \<times> 'v) list" where
  "dict_set k v [] = [(k, v)]"
| "dict_set k v ((k', v') # d) =
     (if k' = k then (k', v) # d else (k', v') # dict_set k v d)"

text \<open>
  Exceptions are values. \<open>ImportError\<close> is what \<^verbatim>\<open>_init_yars\<close> raises,
  \<open>OverflowError\<close> what the conversion of a too large \<^verbatim>\<open>int\<close> to \<^verbatim>\<open>float\<close> raises,
  \<open>TypeError\<close> what the use of a non-dict element as a post raises; \<open>Failure\<close> stands
  for any instance of \<^verbatim>\<open>Exception\<close> raised inside the collaborator. The
  \<^verbatim>\<open>except Exception\<close> clauses of the scripts catch \<open>Failure\<close> and \<open>TypeError\<close>.
\<close>

datatype error = ImportError string | OverflowError string | TypeError string | Failure string

text \<open>
  Everything outside the scripts is the environment: the three operations of the
  collaborator, \<^verbatim>\<open>time.sleep(random.uniform(lo, hi))\<close> and
  \<^verbatim>\<open>datetime.now().isoformat()\<close>. The environment has a state of its own, of an arbitrary
  type \<open>'w\<close>, which every operation may change, so the answer to a call may depend on
  all earlier calls. A collaborator call either raises (\<open>Inl\<close>) or returns (\<open>Inr\<close>)
  a list, which may be empty and may hold a post more than once or a post of an earlier
  call. The elements of a search result are items, since \<^verbatim>\<open>search_ticker\<close> and
  \<^verbatim>\<open>scrape_ticker_sentiment\<close> work on them; \<^verbatim>\<open>get_subreddit_posts\<close> and
  \<^verbatim>\<open>get_post_details\<close> pass their result on untouched, so there the elements are
  taken to be posts. A result that is no list at all is not modelled, and neither is
  what the scripts print. The collaborator does not write to a post after it has
  handed it over.
\<close>

record 'w environment =
  search_subreddit :: "'w \<Rightarrow> string \<Rightarrow> string \<Rightarrow> int \<Rightarrow> string \<Rightarrow> (error + item list) \<times> 'w"
  fetch_subreddit_posts :: "'w \<Rightarrow> string \<Rightarrow> int \<Rightarrow> string \<Rightarrow> string \<Rightarrow> (error + addr list) \<times> 'w"
  scrape_post_details :: "'w \<Rightarrow> string \<Rightarrow> (error + addr option) \<times> 'w"
  sleep_uniform :: "'w \<Rightarrow> rat \<Rightarrow> rat \<Rightarrow> 'w"
  now_isoformat :: "'w \<Rightarrow> string"

text \<open>
  The interactions with the environment are logged, each collaborator call with its
  arguments and its outcome, each pause with the bounds of the random delay.
\<close>

datatype event =
    Search string string int string "error + item list"
  | Fetch string int string string "error + addr list"
  | Details string "error + addr option"
  | Delay rat rat

record 'w state =
  world :: 'w
  store :: store
  trace :: "event list"

subsection \<open>Floats\<close>

text \<open>
  A finite Python \<^verbatim>\<open>float\<close> is an IEEE 754 double, here the rational number it stands
  for. \<open>fl x\<close> is the double nearest to \<open>x\<close>, ties going to the even significand:
  53 significant bits, and the fixed quantum \<open>pow2 (- 1074)\<close> below \<open>pow2 (- 1022)\<close>.
  It is used for quotients and products that stay far below the largest double.
\<close>

function bit_length :: "int \<Rightarrow> int" where
  "bit_length n = (if n \<le> 0 then 0 else 1 + bit_length (n div 2))"
  by pat_completeness auto
termination
  by (relation "measure nat") auto

declare bit_length.simps [simp del]

definition pow2 :: "int \<Rightarrow> rat" where
  "pow2 n = (if 0 \<le> n then 2 ^ nat n else 1 / 2 ^ nat (- n))"

definition floor_log2 :: "rat \<Rightarrow> int" where
  "floor_log2 x =
     (case quotient_of x of
        (p, q) \<Rightarrow>
          let d = bit_length p - bit_length q
          in if pow2 d \<le> x then d else d - 1)"

definition round_half_even :: "rat \<Rightarrow> int" where
  "round_half_even x =
     (let f = \<lfloor>x\<rfloor>; d = x - of_int f
      in if d < 1 / 2 then f else if 1 / 2 < d then f + 1 else if even f then f else f + 1)"

definition fl :: "rat \<Rightarrow> rat" where
  "fl x =
     (if x = 0 then 0
      else let e = floor_log2 \<bar>x\<bar>;
               q = (if e < - 1022 then - 1074 else e - 52)
           in of_int (round_half_even (x / pow2 q)) * pow2 q)"

text \<open>
  The conversion of an \<^verbatim>\<open>int\<close> to \<^verbatim>\<open>float\<close>, which \<^verbatim>\<open>60.0 / r\<close> does first: it raises
  \<^verbatim>\<open>OverflowError\<close> when the nearest double would be \<open>2 ^ 1024\<close>, that is from
  \<open>2 ^ 1024 - 2 ^ 970\<close> on.
\<close>

definition float_of_int :: "int \<Rightarrow> error + rat" where
  "float_of_int r =
     (if 2 ^ 1024 - 2 ^ 970 \<le> \<bar>r\<bar> then Inl (OverflowError ''int too large to convert to float'')
      else Inr (fl (of_int r)))"

subsection \<open>Configuration and client\<close>

text \<open>
  The configuration dict, with the keys the spec recognises; \<open>None\<close> is an absent key.
  \<^verbatim>\<open>reddit_proxy\<close> may be present with the value \<^verbatim>\<open>None\<close>.
\<close>

record config =
  cfg_enabled :: "bool option"
  cfg_reddit_enabled :: "bool option"
  cfg_reddit_proxy :: "string option option"
  cfg_subreddits :: "string list option"
  cfg_rate_limit_per_minute :: "int option"

record client =
  config :: config
  enabled :: bool
  subreddits :: "string list"
  rate_limit :: int
  min_delay :: rat
  proxy :: "string option"

text \<open>
  \<^verbatim>\<open>RedditSentimentClient.__init__\<close>. \<open>getenv_proxy\<close> is the value of
  \<^verbatim>\<open>os.getenv('REDDIT_PROXY')\<close>, \<open>yars_found\<close> says whether one of the import attempts
  of \<^verbatim>\<open>_init_yars\<close> succeeds. The delay is computed before the collaborator is
  imported, so an \<^verbatim>\<open>OverflowError\<close> of \<^verbatim>\<open>60.0 / self.rate_limit\<close> leaves the constructor
  first. The divisor is at least 1 there, so the quotient is at most 60.
\<close>

definition init_yars :: "bool \<Rightarrow> error + unit" where
  "init_yars yars_found =
     (if yars_found then Inr () else Inl (ImportError ''Could not import YARS!''))"

definition compute_min_delay :: "int \<Rightarrow> error + rat" where
  "compute_min_delay rl =
     (if rl > 0 then
        (case float_of_int rl of Inl e \<Rightarrow> Inl e | Inr d \<Rightarrow> Inr (fl (60 / d)))
      else Inr 2)"

definition RedditSentimentClient_init :: "config \<Rightarrow> string option \<Rightarrow> bool \<Rightarrow> error + client" where
  "RedditSentimentClient_init cfg getenv_proxy yars_found =
     (let en = (case cfg_reddit_enabled cfg of Some b \<Rightarrow> b | None \<Rightarrow> True);
          subs = (case cfg_subreddits cfg of Some l \<Rightarrow> l | None \<Rightarrow> [''wallstreetbets'', ''stocks'']);
          rl = (case cfg_rate_limit_per_minute cfg of Some r \<Rightarrow> r | None \<Rightarrow> 30)
      in case compute_min_delay rl of
           Inl e \<Rightarrow> Inl e
         | Inr md \<Rightarrow>
             let px = (case cfg_reddit_proxy cfg of Some p \<Rightarrow> p | None \<Rightarrow> getenv_proxy)
             in case init_yars yars_found of
                  Inl e \<Rightarrow> Inl e
                | Inr _ \<Rightarrow> Inr \<lparr>config = cfg, enabled = en, subreddits = subs, rate_limit = rl,
                                 min_delay = md, proxy = px\<rparr>)"

section \<open>The facade \<^verbatim>\<open>RedditSentimentClient\<close>\<close>

text \<open>
  \<^verbatim>\<open>_rate_limit_delay\<close>: one pause of a length drawn from \<open>[min_delay, 1.5 * min_delay]\<close>,
  the upper bound being the float product \<^verbatim>\<open>self.min_delay * 1.5\<close>.
\<close>

definition rate_limit_delay :: "client \<Rightarrow> 'w environment \<Rightarrow> 'w state \<Rightarrow> 'w state" where
  "rate_limit_delay c env st =
     st\<lparr>world := sleep_uniform env (world st) (min_delay c) (fl (min_delay c * (3 / 2))),
        trace := trace st @ [Delay (min_delay c) (fl (min_delay c * (3 / 2)))]\<rparr>"

text \<open>
  \<^verbatim>\<open>get_subreddit_posts\<close>. The pause is inside the \<^verbatim>\<open>try\<close>, after the call: a call that
  raises goes straight to the handler, which returns the empty list.
\<close>

definition get_subreddit_posts ::
  "client \<Rightarrow> 'w environment \<Rightarrow> string \<Rightarrow> int \<Rightarrow> string \<Rightarrow> string \<Rightarrow> 'w state \<Rightarrow> addr list \<times> 'w state" where
  "get_subreddit_posts c env subreddit limit category time_filter st =
     (if \<not> enabled c then ([], st)
      else case fetch_subreddit_posts env (world st) subreddit limit category time_filter of
        (r, w') \<Rightarrow>
          let st1 = st\<lparr>world := w', trace := trace st @ [Fetch subreddit limit category time_filter r]\<rparr>
          in case r of
               Inr ps \<Rightarrow> (ps, rate_limit_delay c env st1)
             | Inl e \<Rightarrow> ([], st1))"

text \<open>
  The inner loop of \<^verbatim>\<open>search_ticker\<close>: both keys are assigned in the dict object of
  every post of the list, in list order. The first element that is no dict raises
  \<^verbatim>\<open>TypeError\<close>; the posts before it keep the tags they were given.
\<close>

fun tag_posts :: "string \<Rightarrow> string \<Rightarrow> item list \<Rightarrow> store \<Rightarrow> error option \<times> store" where
  "tag_posts sub tk [] h = (None, h)"
| "tag_posts sub tk (Post p # xs) h =
     tag_posts sub tk xs
       (h(p := dict_set ''ticker_searched'' (PStr tk) (dict_set ''subreddit'' (PStr sub) (h p))))"
| "tag_posts sub tk (NonDict v # xs) h =
     (Some (TypeError ''object does not support item assignment''), h)"

text \<open>The posts of a list of items.\<close>

fun posts_of :: "item list \<Rightarrow> addr list" where
  "posts_of [] = []"
| "posts_of (Post p # xs) = p # posts_of xs"
| "posts_of (NonDict v # xs) = posts_of xs"

text \<open>
  The outer loop of \<^verbatim>\<open>search_ticker\<close> over the subreddits still to visit, with the
  accumulator \<^verbatim>\<open>all_posts\<close>. \<^verbatim>\<open>if posts:\<close> is the test for a non-empty list. The
  \<^verbatim>\<open>try\<close> block holds the call, the tagging loop, \<^verbatim>\<open>all_posts.extend(posts)\<close> and the
  pause, in this order: when the call or the tagging raises, the handler goes on with
  the next subreddit, and neither the \<^verbatim>\<open>extend\<close> nor the pause has happened. A list
  reaches \<^verbatim>\<open>all_posts\<close> only after all its elements were tagged, so \<^verbatim>\<open>all_posts\<close> holds
  posts only.
\<close>

fun search_loop ::
  "client \<Rightarrow> 'w environment \<Rightarrow> string \<Rightarrow> int \<Rightarrow> string list \<Rightarrow> addr list \<Rightarrow> 'w state \<Rightarrow> addr list \<times> 'w state" where
  "search_loop c env tk limit [] all_ps st = (all_ps, st)"
| "search_loop c env tk limit (sub # subs) all_ps st =
     (case search_subreddit env (world st) sub tk limit ''relevance'' of
        (r, w') \<Rightarrow>
          let st1 = st\<lparr>world := w', trace := trace st @ [Search sub tk limit ''relevance'' r]\<rparr>
          in case r of
               Inl e \<Rightarrow> search_loop c env tk limit subs all_ps st1
             | Inr xs \<Rightarrow>
                 if xs \<noteq> [] then
                   (case tag_posts sub tk xs (store st1) of
                      (Some e, h) \<Rightarrow> search_loop c env tk limit subs all_ps (st1\<lparr>store := h\<rparr>)
                    | (None, h) \<Rightarrow>
                        search_loop c env tk limit subs (all_ps @ posts_of xs)
                          (rate_limit_delay c env (st1\<lparr>store := h\<rparr>)))
                 else search_loop c env tk limit subs all_ps (rate_limit_delay c env st1))"

definition search_ticker ::
  "client \<Rightarrow> 'w environment \<Rightarrow> string \<Rightarrow> string list option \<Rightarrow> int \<Rightarrow> 'w state \<Rightarrow> addr list \<times> 'w state" where
  "search_ticker c env tk subs_opt limit_per_subreddit st =
     (if \<not> enabled c then ([], st)
      else search_loop c env tk limit_per_subreddit
             (case subs_opt of None \<Rightarrow> subreddits c | Some l \<Rightarrow> l) [] st)"

definition get_post_details ::
  "client \<Rightarrow> 'w environment \<Rightarrow> string \<Rightarrow> 'w state \<Rightarrow> addr option \<times> 'w state" where
  "get_post_details c env permalink st =
     (if \<not> enabled c then (None, st)
      else case scrape_post_details env (world st) permalink of
        (r, w') \<Rightarrow>
          let st1 = st\<lparr>world := w', trace := trace st @ [Details permalink r]\<rparr>
          in case r of
               Inr details \<Rightarrow> (details, rate_limit_delay c env st1)
             | Inl e \<Rightarrow> (None, st1))"

text \<open>
  \<^verbatim>\<open>get_multi_subreddit_posts\<close>: the loop with the dict \<^verbatim>\<open>results\<close>; the call of
  \<^verbatim>\<open>get_subreddit_posts\<close> leaves \<^verbatim>\<open>time_filter\<close> at its default \<^verbatim>\<open>"day"\<close>.
\<close>

fun multi_loop ::
  "client \<Rightarrow> 'w environment \<Rightarrow> int \<Rightarrow> string \<Rightarrow> string list \<Rightarrow> (string \<times> addr list) list \<Rightarrow> 'w state
     \<Rightarrow> (string \<times> addr list) list \<times> 'w state" where
  "multi_loop c env limit_per_sub category [] results st = (results, st)"
| "multi_loop c env limit_per_sub category (sub # subs) results st =
     (case get_subreddit_posts c env sub limit_per_sub category ''day'' st of
        (ps, st1) \<Rightarrow>
          multi_loop c env limit_per_sub category subs
            (if ps \<noteq> [] then dict_set sub ps results else results) st1)"

definition get_multi_subreddit_posts ::
  "client \<Rightarrow> 'w environment \<Rightarrow> string list option \<Rightarrow> int \<Rightarrow> string \<Rightarrow> 'w state
     \<Rightarrow> (string \<times> addr list) list \<times> 'w state" where
  "get_multi_subreddit_posts c env subs_opt limit_per_sub category st =
     (if \<not> enabled c then ([], st)
      else multi_loop c env limit_per_sub category
             (case subs_opt of None \<Rightarrow> subreddits c | Some l \<Rightarrow> l) [] st)"

text \<open>
  The report of one ticker in \<^verbatim>\<open>get_sentiment_data\<close>, and the counting loop, which
  reads the \<^verbatim>\<open>subreddit\<close> key of each post with the default \<^verbatim>\<open>'unknown'\<close>.
\<close>

record report =
  ticker :: string
  timestamp :: string
  total_mentions :: int
  posts :: "addr list"
  by_subreddit :: "(pyval \<times> int) list"

fun count_by_subreddit :: "store \<Rightarrow> addr list \<Rightarrow> (pyval \<times> int) list \<Rightarrow> (pyval \<times> int) list" where
  "count_by_subreddit h [] d = d"
| "count_by_subreddit h (p # ps) d =
     (let sub = (case map_of (h p) ''subreddit'' of Some v \<Rightarrow> v | None \<Rightarrow> PStr ''unknown'');
          d1 = (if map_of d sub = None then dict_set sub 0 d else d);
          d2 = (case map_of d1 sub of Some n \<Rightarrow> dict_set sub (n + 1) d1 | None \<Rightarrow> d1)
      in count_by_subreddit h ps d2)"

fun sentiment_loop ::
  "client \<Rightarrow> 'w environment \<Rightarrow> int \<Rightarrow> string list \<Rightarrow> (string \<times> report) list \<Rightarrow> 'w state
     \<Rightarrow> (string \<times> report) list \<times> 'w state" where
  "sentiment_loop c env limit_per_ticker [] results st = (results, st)"
| "sentiment_loop c env limit_per_ticker (tk # tks) results st =
     (case search_ticker c env tk None limit_per_ticker st of
        (ps, st1) \<Rightarrow>
          sentiment_loop c env limit_per_ticker tks
            (dict_set tk
               \<lparr>ticker = tk, timestamp = now_isoformat env (world st1),
                total_mentions = int (length ps), posts = ps,
                by_subreddit = count_by_subreddit (store st1) ps []\<rparr>
               results)
            st1)"

definition get_sentiment_data ::
  "client \<Rightarrow> 'w environment \<Rightarrow> string list \<Rightarrow> int \<Rightarrow> 'w state \<Rightarrow> (string \<times> report) list \<times> 'w state" where
  "get_sentiment_data c env tks limit_per_ticker st =
     (if \<not> enabled c then ([], st) else sentiment_loop c env limit_per_ticker tks [] st)"

section \<open>The scraper \<^verbatim>\<open>StockSentimentScraper\<close>\<close>

record scraper =
  s_proxy :: "string option"
  verbose :: bool
  stock_subreddits :: "string list"

definition StockSentimentScraper_init :: "string option \<Rightarrow> bool \<Rightarrow> scraper" where
  "StockSentimentScraper_init px vb =
     \<lparr>s_proxy = px, verbose = vb,
      stock_subreddits = [''wallstreetbets'', ''stocks'', ''investing'', ''stockmarket'', ''options'']\<rparr>"

record sentiment =
  s_ticker :: string
  s_timestamp :: string
  total_posts :: int
  s_by_subreddit :: "(string \<times> int) list"
  all_posts :: "string pydict list"

text \<open>
  \<^verbatim>\<open>scrape_ticker_sentiment\<close> builds a new dict for every post,
  \<^verbatim>\<open>{**post, "subreddit": subreddit, "ticker": ticker}\<close>, and leaves the collaborator's
  dict alone; the new dicts are held by value. The list comprehension builds the
  whole list of copies before \<^verbatim>\<open>extend\<close> is called; an element that is no dict
  raises \<^verbatim>\<open>TypeError\<close> in it.
\<close>

definition tagged_copy :: "string \<Rightarrow> string \<Rightarrow> string pydict \<Rightarrow> string pydict" where
  "tagged_copy subreddit tk post =
     dict_set ''ticker'' (PStr tk) (dict_set ''subreddit'' (PStr subreddit) post)"

fun copy_posts :: "string \<Rightarrow> string \<Rightarrow> store \<Rightarrow> item list \<Rightarrow> error + string pydict list" where
  "copy_posts subreddit tk h [] = Inr []"
| "copy_posts subreddit tk h (Post p # xs) =
     (case copy_posts subreddit tk h xs of
        Inl e \<Rightarrow> Inl e
      | Inr ds \<Rightarrow> Inr (tagged_copy subreddit tk (h p) # ds))"
| "copy_posts subreddit tk h (NonDict v # xs) = Inl (TypeError ''object is not a mapping'')"

text \<open>
  The loop over \<^verbatim>\<open>self.stock_subreddits\<close>. Inside the \<^verbatim>\<open>try\<close> block the statements
  run in the order of the source: the call, the assignment to
  \<^verbatim>\<open>results["by_subreddit"][subreddit]\<close>, the addition to \<^verbatim>\<open>results["total_posts"]\<close>,
  the copies and their \<^verbatim>\<open>extend\<close>, the pause. A \<^verbatim>\<open>TypeError\<close> in the copies leaves the
  two counts written, \<^verbatim>\<open>all_posts\<close> as it was, and skips the pause.
\<close>

fun scrape_loop ::
  "'w environment \<Rightarrow> string \<Rightarrow> int \<Rightarrow> string list \<Rightarrow> sentiment \<Rightarrow> 'w state \<Rightarrow> sentiment \<times> 'w state" where
  "scrape_loop env tk max_posts [] results st = (results, st)"
| "scrape_loop env tk max_posts (subreddit # subs) results st =
     (case search_subreddit env (world st) subreddit tk max_posts ''relevance'' of
        (r, w') \<Rightarrow>
          let st1 = st\<lparr>world := w', trace := trace st @ [Search subreddit tk max_posts ''relevance'' r]\<rparr>;
              st2 = st1\<lparr>world := sleep_uniform env (world st1) 2 4, trace := trace st1 @ [Delay 2 4]\<rparr>
          in case r of
               Inl e \<Rightarrow> scrape_loop env tk max_posts subs results st1
             | Inr xs \<Rightarrow>
                 if xs \<noteq> [] then
                   (let results1 =
                          results\<lparr>s_by_subreddit := dict_set subreddit (int (length xs)) (s_by_subreddit results),
                                  total_posts := total_posts results + int (length xs)\<rparr>
                    in case copy_posts subreddit tk (store st1) xs of
                         Inl e \<Rightarrow> scrape_loop env tk max_posts subs results1 st1
                       | Inr ds \<Rightarrow>
                           scrape_loop env tk max_posts subs
                             (results1\<lparr>all_posts := all_posts results1 @ ds\<rparr>) st2)
                 else scrape_loop env tk max_posts subs results st2)"

definition scrape_ticker_sentiment ::
  "scraper \<Rightarrow> 'w environment \<Rightarrow> string \<Rightarrow> int \<Rightarrow> 'w state \<Rightarrow> sentiment \<times> 'w state" where
  "scrape_ticker_sentiment s env tk max_posts st =
     scrape_loop env tk max_posts (stock_subreddits s)
       \<lparr>s_ticker = tk, s_timestamp = now_isoformat env (world st), total_posts = 0,
        s_by_subreddit = [], all_posts = []\<rparr> st"

section \<open>Observing a run\<close>

text \<open>
  The events a call adds to the log are those after the ones that were there before.
\<close>

definition new_events :: "'w state \<Rightarrow> 'w state \<Rightarrow> event list" where
  "new_events st st' = drop (length (trace st)) (trace st')"

text \<open>
  A log is genuine for an environment and a starting world when every call in it got
  the answer the environment gives at that point, each interaction starting in the
  world the one before left. \<open>replay\<close> goes through the log and returns the world at
  its end, or \<open>None\<close> at the first event that is not what the environment answers.
\<close>

fun replay :: "'w environment \<Rightarrow> 'w \<Rightarrow> event list \<Rightarrow> 'w option" where
  "replay env w [] = Some w"
| "replay env w (Search s tk l srt r # es) =
     (if fst (search_subreddit env w s tk l srt) = r
      then replay env (snd (search_subreddit env w s tk l srt)) es else None)"
| "replay env w (Fetch s l cat tf r # es) =
     (if fst (fetch_subreddit_posts env w s l cat tf) = r
      then replay env (snd (fetch_subreddit_posts env w s l cat tf)) es else None)"
| "replay env w (Details pl r # es) =
     (if fst (scrape_post_details env w pl) = r
      then replay env (snd (scrape_post_details env w pl)) es else None)"
| "replay env w (Delay lo hi # es) = replay env (sleep_uniform env w lo hi) es"

fun is_delay :: "event \<Rightarrow> bool" where
  "is_delay (Delay lo hi) = True"
| "is_delay _ = False"


fun is_post :: "item \<Rightarrow> bool" where
  "is_post (Post p) = True"
| "is_post (NonDict v) = False"

text \<open>
  A collaborator call whose \<^verbatim>\<open>try\<close> block ran to its end in the facade: the call
  came back without raising and, for a search, every element of the list is a post.
\<close>

fun completed :: "event \<Rightarrow> bool" where
  "completed (Search s tk l srt (Inr xs)) = list_all is_post xs"
| "completed (Fetch s l cat tf (Inr ps)) = True"
| "completed (Details pl (Inr d)) = True"
| "completed _ = False"

text \<open>
  A log in which the pause \<open>Delay lo hi\<close> comes directly after every completed call
  and nowhere else.
\<close>

fun paced :: "rat \<Rightarrow> rat \<Rightarrow> event list \<Rightarrow> bool" where
  "paced lo hi [] = True"
| "paced lo hi (Delay lo' hi' # es) = False"
| "paced lo hi (e # es) =
     (if completed e then
        (case es of [] \<Rightarrow> False | d # es' \<Rightarrow> d = Delay lo hi \<and> paced lo hi es')
      else paced lo hi es)"

text \<open>A search whose result, if it came back, holds posts only.\<close>

fun well_formed :: "event \<Rightarrow> bool" where
  "well_formed (Search s tk l srt (Inr xs)) = list_all is_post xs"
| "well_formed _ = True"

text \<open>
  The posts of a search that came back with posts only; none for a call that raised
  and none for a list with an element that is no dict.
\<close>

fun found_posts :: "event \<Rightarrow> addr list" where
  "found_posts (Search s tk l srt (Inr xs)) = (if list_all is_post xs then posts_of xs else [])"
| "found_posts _ = []"

text \<open>The subreddits of the search calls of a log, in the order of the calls.\<close>

fun searched :: "event list \<Rightarrow> string list" where
  "searched [] = []"
| "searched (Search s tk l srt r # es) = s # searched es"
| "searched (e # es) = searched es"

text \<open>
  \<open>sources\<close>: every post of a search result that holds posts only, paired with the
  subreddit of that call, in the order in which the calls returned them.
  \<open>returned_posts\<close>: the same for every post any search call returned, also in a list
  that holds an element that is no dict.
\<close>

fun sources :: "event list \<Rightarrow> (addr \<times> string) list" where
  "sources [] = []"
| "sources (Search s tk l srt (Inr xs) # es) =
     (if list_all is_post xs then map (\<lambda>p. (p, s)) (posts_of xs) else []) @ sources es"
| "sources (e # es) = sources es"

fun returned_posts :: "event list \<Rightarrow> (addr \<times> string) list" where
  "returned_posts [] = []"
| "returned_posts (Search s tk l srt (Inr xs) # es) = map (\<lambda>p. (p, s)) (posts_of xs) @ returned_posts es"
| "returned_posts (e # es) = returned_posts es"

text \<open>
  The posts a search event makes \<^verbatim>\<open>search_ticker\<close> tag: those before the first element
  that is no dict. \<open>last_source\<close> is the subreddit of the last search call of a log
  that made it tag the post \<open>p\<close>.
\<close>

fun tagged_prefix :: "item list \<Rightarrow> addr list" where
  "tagged_prefix [] = []"
| "tagged_prefix (Post p # xs) = p # tagged_prefix xs"
| "tagged_prefix (NonDict v # xs) = []"

fun tagged_by :: "event \<Rightarrow> addr \<Rightarrow> string option" where
  "tagged_by (Search s tk l srt (Inr xs)) p = (if p \<in> set (tagged_prefix xs) then Some s else None)"
| "tagged_by e p = None"

fun last_source :: "event list \<Rightarrow> addr \<Rightarrow> string option" where
  "last_source [] p = None"
| "last_source (e # es) p =
     (case last_source es p of
        Some s \<Rightarrow> Some s
      | None \<Rightarrow> tagged_by e p)"


text \<open>
  What repeated tagging leaves in a post: the fields it had, with the two keys of
  \<^verbatim>\<open>search_ticker\<close> set if some call made it tag the post.
\<close>

definition retag :: "string \<Rightarrow> string option \<Rightarrow> (string \<rightharpoonup> pyval) \<Rightarrow> (string \<rightharpoonup> pyval)" where
  "retag tk so m =
     (case so of
        None \<Rightarrow> m
      | Some s \<Rightarrow> m(''subreddit'' \<mapsto> PStr s, ''ticker_searched'' \<mapsto> PStr tk))"

text \<open>A log that holds only pauses and searches for the ticker \<open>tk\<close> with the limit \<open>l\<close>.\<close>

definition search_events :: "string \<Rightarrow> int \<Rightarrow> event list \<Rightarrow> bool" where
  "search_events tk l evs = list_all (\<lambda>e. is_delay e \<or> (\<exists>s r. e = Search s tk l ''relevance'' r)) evs"

section \<open>Sample environments\<close>

text \<open>
  The world of the samples counts the collaborator calls made so far. The sample
  collaborator raises for \<^verbatim>\<open>wallstreetbets\<close>, returns the posts 0 and 1 for \<^verbatim>\<open>stocks\<close>
  and the post 1 again for \<^verbatim>\<open>investing\<close>; a search of \<^verbatim>\<open>options\<close> returns a list with
  \<^verbatim>\<open>None\<close> between two posts; everything else is empty. A second collaborator raises on
  every call. Post 0 comes with a \<^verbatim>\<open>subreddit\<close> field of its own.
\<close>

definition sample_posts :: "string \<Rightarrow> error + addr list" where
  "sample_posts s =
     (if s = ''wallstreetbets'' then Inl (Failure ''HTTP 429'')
      else if s = ''stocks'' then Inr [0, 1]
      else if s = ''investing'' then Inr [1]
      else Inr [])"

definition sample_search :: "string \<Rightarrow> error + item list" where
  "sample_search s =
     (if s = ''wallstreetbets'' then Inl (Failure ''HTTP 429'')
      else if s = ''stocks'' then Inr [Post 0, Post 1]
      else if s = ''investing'' then Inr [Post 1]
      else if s = ''options'' then Inr [Post 2, NonDict PNone, Post 3]
      else Inr [])"

definition sample_env :: "nat environment" where
  "sample_env =
     \<lparr>search_subreddit = (\<lambda>w s tk l srt. (sample_search s, Suc w)),
      fetch_subreddit_posts = (\<lambda>w s l cat tf. (sample_posts s, Suc w)),
      scrape_post_details = (\<lambda>w pl. (Inr (Some 0), Suc w)),
      sleep_uniform = (\<lambda>w lo hi. w),
      now_isoformat = (\<lambda>w. ''2025-01-01T00:00:00'')\<rparr>"

definition failing_env :: "nat environment" where
  "failing_env =
     \<lparr>search_subreddit = (\<lambda>w s tk l srt. (Inl (Failure ''timeout''), Suc w)),
      fetch_subreddit_posts = (\<lambda>w s l cat tf. (Inl (Failure ''timeout''), Suc w)),
      scrape_post_details = (\<lambda>w pl. (Inl (Failure ''timeout''), Suc w)),
      sleep_uniform = (\<lambda>w lo hi. w),
      now_isoformat = (\<lambda>w. ''2025-01-01T00:00:00'')\<rparr>"

text \<open>The sample collaborator with searches that return what its fetches return.\<close>

definition clean_env :: "nat environment" where
  "clean_env =
     sample_env\<lparr>search_subreddit := (\<lambda>w s tk l srt. (map_sum id (map Post) (sample_posts s), Suc w))\<rparr>"

definition sample_store :: store where
  "sample_store a =
     (if a = 0 then [(''title'', PStr ''TSLA''), (''subreddit'', PStr ''r/stocks'')]
      else [(''title'', PStr ''Earnings'')])"

definition sample_state :: "nat state" where
  "sample_state = \<lparr>world = 0, store = sample_store, trace = []\<rparr>"

definition sample_config :: config where
  "sample_config =
     \<lparr>cfg_enabled = None, cfg_reddit_enabled = None, cfg_reddit_proxy = None,
      cfg_subreddits = Some [''wallstreetbets'', ''stocks''], cfg_rate_limit_per_minute = Some 30\<rparr>"

text \<open>The same configuration with the key \<^verbatim>\<open>enabled\<close> set to false.\<close>

definition enabled_false_config :: config where
  "enabled_false_config = sample_config\<lparr>cfg_enabled := Some False\<rparr>"

definition sample_client :: client where
  "sample_client =
     \<lparr>config = sample_config, enabled = True, subreddits = [''wallstreetbets'', ''stocks''],
      rate_limit = 30, min_delay = 2, proxy = None\<rparr>"

section \<open>Auxiliary facts\<close>

lemma map_of_dict_set: "map_of (dict_set k v d) = (map_of d)(k \<mapsto> v)"
  by (induction d) (auto simp: fun_eq_iff)

lemma map_fst_dict_set:
  "map fst (dict_set k v d) = (if k \<in> fst ` set d then map fst d else map fst d @ [k])"
  by (induction d) (force simp: image_iff)+

lemma keys_dict_set: "fst ` set (dict_set k v d) = insert k (fst ` set d)"
proof -
  have "set (map fst (dict_set k v d)) = insert k (set (map fst d))"
    by (auto simp: map_fst_dict_set)
  then show ?thesis by simp
qed

lemma set_dict_set: "set (dict_set k v d) \<subseteq> insert (k, v) (set d)"
proof (induction d)
  case Nil
  then show ?case by simp
next
  case (Cons x d)
  obtain k' v' where x: "x = (k', v')" by (cases x)
  show ?case
  proof (cases "k' = k")
    case True
    with x show ?thesis by auto
  next
    case False
    with x Cons.IH show ?thesis by auto
  qed
qed

lemma sum_dict_set:
  fixes d :: "('k \<times> int) list"
  shows "sum_list (map snd (dict_set k v d))
           = sum_list (map snd d) + v - (case map_of d k of Some n \<Rightarrow> n | None \<Rightarrow> 0)"
  by (induction d) auto

subsection \<open>Tagging\<close>

lemma tag_posts_done: "fst (tag_posts sub tk xs h) = None \<longleftrightarrow> list_all is_post xs"
proof (induction xs arbitrary: h)
  case Nil
  then show ?case by simp
next
  case (Cons x xs)
  show ?case by (cases x) (simp_all add: Cons.IH)
qed

lemma map_of_tag_posts:
  "map_of (snd (tag_posts sub tk xs h) p) =
     (if p \<in> set (tagged_prefix xs)
      then (map_of (h p))(''subreddit'' \<mapsto> PStr sub, ''ticker_searched'' \<mapsto> PStr tk)
      else map_of (h p))"
proof (induction xs arbitrary: h)
  case Nil
  then show ?case by simp
next
  case (Cons x xs)
  show ?case
  proof (cases x)
    case (Post q)
    define d where "d = dict_set ''ticker_searched'' (PStr tk) (dict_set ''subreddit'' (PStr sub) (h q))"
    define h' where "h' = h(q := d)"
    have step: "tag_posts sub tk (x # xs) h = tag_posts sub tk xs h'"
      using Post by (simp add: h'_def d_def)
    have d: "map_of d = (map_of (h q))(''subreddit'' \<mapsto> PStr sub, ''ticker_searched'' \<mapsto> PStr tk)"
      by (simp add: d_def map_of_dict_set)
    have pre: "set (tagged_prefix (x # xs)) = insert q (set (tagged_prefix xs))"
      using Post by simp
    show ?thesis
    proof (cases "p = q")
      case True
      then have "h' p = d" by (simp add: h'_def)
      with Cons.IH [of h'] d True show ?thesis
        unfolding step pre by (auto simp: fun_upd_twist)
    next
      case False
      then have "h' p = h p" by (simp add: h'_def)
      with Cons.IH [of h'] False show ?thesis
        unfolding step pre by auto
    qed
  next
    case (NonDict v)
    then show ?thesis by simp
  qed
qed

lemma tagged_prefix_posts_of: "list_all is_post xs \<Longrightarrow> tagged_prefix xs = posts_of xs"
  by (induction xs rule: posts_of.induct) auto

lemma tagged_prefix_subset: "set (tagged_prefix xs) \<subseteq> set (posts_of xs)"
  by (induction xs rule: posts_of.induct) auto

lemma copy_posts_done: "isl (copy_posts s tk h xs) \<longleftrightarrow> \<not> list_all is_post xs"
  by (induction s tk h xs rule: copy_posts.induct) (auto split: sum.splits)

lemma copy_posts_result:
  "copy_posts s tk h xs = Inr ds \<Longrightarrow> ds = map (\<lambda>p. tagged_copy s tk (h p)) (posts_of xs)"
  by (induction s tk h xs arbitrary: ds rule: copy_posts.induct) (auto split: sum.splits)

lemma length_posts_of: "list_all is_post xs \<Longrightarrow> length (posts_of xs) = length xs"
  by (induction xs rule: posts_of.induct) auto

lemma length_posts_of_le: "length (posts_of xs) \<le> length xs"
  by (induction xs rule: posts_of.induct) auto

subsection \<open>Logs\<close>

lemma new_events_append: "trace st' = trace st @ evs \<Longrightarrow> new_events st st' = evs"
  by (simp add: new_events_def)

lemma new_events_same [simp]: "new_events st st = []"
  by (simp add: new_events_def)




lemma found_posts_sources: "concat (map found_posts evs) = map fst (sources evs)"
  by (induction evs rule: sources.induct) (simp_all add: comp_def)

lemma sources_returned: "set (sources evs) \<subseteq> set (returned_posts evs)"
  by (induction evs rule: returned_posts.induct) auto

lemma last_source_returned: "last_source evs p = Some s \<Longrightarrow> (p, s) \<in> set (returned_posts evs)"
proof (induction evs)
  case Nil
  then show ?case by simp
next
  case (Cons e evs)
  have tail: "set (returned_posts evs) \<subseteq> set (returned_posts (e # evs))"
    by (cases "(e # evs)" rule: returned_posts.cases) auto
  show ?case
  proof (cases "last_source evs p")
    case (Some s')
    with Cons tail show ?thesis by auto
  next
    case None
    with Cons.prems have t: "tagged_by e p = Some s" by simp
    then obtain s' tk l srt xs where e: "e = Search s' tk l srt (Inr xs)"
      by (cases "(e, p)" rule: tagged_by.cases) auto
    with t have "s' = s" "p \<in> set (tagged_prefix xs)" by (auto split: if_splits)
    with e tagged_prefix_subset [of xs] show ?thesis by auto
  qed
qed

lemma sources_last_source: "(p, s) \<in> set (sources evs) \<Longrightarrow> last_source evs p \<noteq> None"
proof (induction evs rule: sources.induct)
  case 1
  then show ?case by simp
next
  case (2 s' tk l srt xs es)
  show ?case
  proof (cases "last_source es p")
    case (Some a)
    then show ?thesis by simp
  next
    case None
    with 2 have "(p, s) \<in> set (if list_all is_post xs then map (\<lambda>p. (p, s')) (posts_of xs) else [])"
      by auto
    then have "list_all is_post xs" "p \<in> set (posts_of xs)" by (auto split: if_splits)
    then have "p \<in> set (tagged_prefix xs)" by (simp add: tagged_prefix_posts_of)
    with None show ?thesis by simp
  qed
qed (auto split: option.splits)

subsection \<open>The loop of \<^verbatim>\<open>search_ticker\<close>\<close>

lemma search_loop_Cons:
  "search_loop c env tk l (sub # subs) acc st =
     (case search_subreddit env (world st) sub tk l ''relevance'' of
        (r, w') \<Rightarrow>
          let st1 = st\<lparr>world := w', trace := trace st @ [Search sub tk l ''relevance'' r]\<rparr>
          in case r of
               Inl e \<Rightarrow> search_loop c env tk l subs acc st1
             | Inr xs \<Rightarrow>
                 if list_all is_post xs then
                   search_loop c env tk l subs (acc @ posts_of xs)
                     (rate_limit_delay c env (st1\<lparr>store := snd (tag_posts sub tk xs (store st1))\<rparr>))
                 else search_loop c env tk l subs acc
                     (st1\<lparr>store := snd (tag_posts sub tk xs (store st1))\<rparr>))"
proof -
  obtain r w' where call: "search_subreddit env (world st) sub tk l ''relevance'' = (r, w')"
    by (cases "search_subreddit env (world st) sub tk l ''relevance''")
  show ?thesis
  proof (cases r)
    case (Inl e)
    with call show ?thesis by simp
  next
    case (Inr xs)
    define st1 where "st1 = st\<lparr>world := w', trace := trace st @ [Search sub tk l ''relevance'' r]\<rparr>"
    obtain eo h where tag: "tag_posts sub tk xs (store st1) = (eo, h)"
      by (cases "tag_posts sub tk xs (store st1)")
    have fin: "eo = None \<longleftrightarrow> list_all is_post xs"
      using tag_posts_done [of sub tk xs "store st1"] tag by simp
    show ?thesis
    proof (cases "xs = []")
      case True
      with call Inr show ?thesis by simp
    next
      case False
      with call Inr tag fin show ?thesis
        by (cases eo) (auto simp: st1_def Let_def)
    qed
  qed
qed

lemma search_loop_run:
  "search_loop c env tk l subs acc st = (res, st') \<Longrightarrow>
   \<exists>evs. trace st' = trace st @ evs
     \<and> res = acc @ concat (map found_posts evs)
     \<and> searched evs = subs
     \<and> paced (min_delay c) (fl (min_delay c * (3 / 2))) evs
     \<and> search_events tk l evs
     \<and> replay env (world st) evs = Some (world st')
     \<and> (\<forall>p. map_of (store st' p) = retag tk (last_source evs p) (map_of (store st p)))"
proof (induction subs arbitrary: acc st)
  case Nil
  then show ?case by (auto simp: retag_def search_events_def)
next
  case (Cons sub subs)
  obtain r w' where call: "search_subreddit env (world st) sub tk l ''relevance'' = (r, w')"
    by (cases "search_subreddit env (world st) sub tk l ''relevance''")
  define st1 where "st1 = st\<lparr>world := w', trace := trace st @ [Search sub tk l ''relevance'' r]\<rparr>"
  let ?e = "Search sub tk l ''relevance'' r"
  let ?d = "Delay (min_delay c) (fl (min_delay c * (3 / 2)))"
  have rp: "replay env (world st) (?e # es) = replay env w' es" for es
    using call by simp
  show ?case
  proof (cases r)
    case (Inl e)
    with Cons.prems call have "search_loop c env tk l subs acc st1 = (res, st')"
      by (simp add: st1_def)
    from Cons.IH [OF this] obtain evs where evs:
      "trace st' = trace st1 @ evs" "res = acc @ concat (map found_posts evs)"
      "searched evs = subs" "paced (min_delay c) (fl (min_delay c * (3 / 2))) evs"
      "search_events tk l evs" "replay env (world st1) evs = Some (world st')"
      "\<forall>p. map_of (store st' p) = retag tk (last_source evs p) (map_of (store st1 p))"
      by blast
    have "trace st' = trace st @ ?e # evs" using evs(1) by (simp add: st1_def)
    moreover have "res = acc @ concat (map found_posts (?e # evs))" using evs(2) Inl by simp
    moreover have "searched (?e # evs) = sub # subs" using evs(3) by simp
    moreover have "paced (min_delay c) (fl (min_delay c * (3 / 2))) (?e # evs)"
      using evs(4) Inl by simp
    moreover have "search_events tk l (?e # evs)" using evs(5) by (auto simp: search_events_def)
    moreover have "replay env (world st) (?e # evs) = Some (world st')"
      using evs(6) rp by (simp add: st1_def)
    moreover have "\<forall>p. map_of (store st' p) = retag tk (last_source (?e # evs) p) (map_of (store st p))"
      using evs(7) Inl by (auto simp: st1_def retag_def split: option.splits)
    ultimately show ?thesis by blast
  next
    case (Inr xs)
    define h where "h = snd (tag_posts sub tk xs (store st1))"
    have store_h: "map_of (h p) =
        (if p \<in> set (tagged_prefix xs)
         then (map_of (store st p))(''subreddit'' \<mapsto> PStr sub, ''ticker_searched'' \<mapsto> PStr tk)
         else map_of (store st p))" for p
      by (simp add: h_def st1_def map_of_tag_posts)
    have tb: "tagged_by ?e p = (if p \<in> set (tagged_prefix xs) then Some sub else None)" for p
      using Inr by simp
    show ?thesis
    proof (cases "list_all is_post xs")
      case True
      define st2 where "st2 = rate_limit_delay c env (st1\<lparr>store := h\<rparr>)"
      from Cons.prems call Inr True have "search_loop c env tk l subs (acc @ posts_of xs) st2 = (res, st')"
        unfolding search_loop_Cons by (simp add: st1_def st2_def h_def Let_def)
      from Cons.IH [OF this] obtain evs where evs:
        "trace st' = trace st2 @ evs" "res = (acc @ posts_of xs) @ concat (map found_posts evs)"
        "searched evs = subs" "paced (min_delay c) (fl (min_delay c * (3 / 2))) evs"
        "search_events tk l evs" "replay env (world st2) evs = Some (world st')"
        "\<forall>p. map_of (store st' p) = retag tk (last_source evs p) (map_of (store st2 p))"
        by blast
      have tr2: "trace st2 = trace st @ [?e, ?d]"
        by (simp add: st2_def st1_def rate_limit_delay_def)
      have w2: "world st2 = sleep_uniform env w' (min_delay c) (fl (min_delay c * (3 / 2)))"
        by (simp add: st2_def st1_def rate_limit_delay_def)
      have s2: "store st2 = h" by (simp add: st2_def rate_limit_delay_def)
      have "trace st' = trace st @ ?e # ?d # evs" using evs(1) tr2 by simp
      moreover have "res = acc @ concat (map found_posts (?e # ?d # evs))"
        using evs(2) Inr True by simp
      moreover have "searched (?e # ?d # evs) = sub # subs" using evs(3) by simp
      moreover have "paced (min_delay c) (fl (min_delay c * (3 / 2))) (?e # ?d # evs)"
        using evs(4) Inr True by simp
      moreover have "search_events tk l (?e # ?d # evs)" using evs(5) by (auto simp: search_events_def)
      moreover have "replay env (world st) (?e # ?d # evs) = Some (world st')"
        using evs(6) w2 unfolding rp by simp
      moreover have "\<forall>p. map_of (store st' p) = retag tk (last_source (?e # ?d # evs) p) (map_of (store st p))"
      proof
        fix p
        show "map_of (store st' p) = retag tk (last_source (?e # ?d # evs) p) (map_of (store st p))"
          using evs(7) [rule_format, of p] store_h [of p] tb [of p] s2
          by (auto simp: retag_def split: option.splits)
      qed
      ultimately show ?thesis by blast
    next
      case False
      define st2 where "st2 = st1\<lparr>store := h\<rparr>"
      from Cons.prems call Inr False have "search_loop c env tk l subs acc st2 = (res, st')"
        unfolding search_loop_Cons by (simp add: st1_def st2_def h_def Let_def)
      from Cons.IH [OF this] obtain evs where evs:
        "trace st' = trace st2 @ evs" "res = acc @ concat (map found_posts evs)"
        "searched evs = subs" "paced (min_delay c) (fl (min_delay c * (3 / 2))) evs"
        "search_events tk l evs" "replay env (world st2) evs = Some (world st')"
        "\<forall>p. map_of (store st' p) = retag tk (last_source evs p) (map_of (store st2 p))"
        by blast
      have s2: "store st2 = h" "world st2 = w'" "trace st2 = trace st @ [?e]"
        by (simp_all add: st2_def st1_def)
      have "trace st' = trace st @ ?e # evs" using evs(1) s2 by simp
      moreover have "res = acc @ concat (map found_posts (?e # evs))" using evs(2) Inr False by simp
      moreover have "searched (?e # evs) = sub # subs" using evs(3) by simp
      moreover have "paced (min_delay c) (fl (min_delay c * (3 / 2))) (?e # evs)"
        using evs(4) Inr False by simp
      moreover have "search_events tk l (?e # evs)" using evs(5) by (auto simp: search_events_def)
      moreover have "replay env (world st) (?e # evs) = Some (world st')"
        using evs(6) s2 unfolding rp by simp
      moreover have "\<forall>p. map_of (store st' p) = retag tk (last_source (?e # evs) p) (map_of (store st p))"
      proof
        fix p
        show "map_of (store st' p) = retag tk (last_source (?e # evs) p) (map_of (store st p))"
          using evs(7) [rule_format, of p] store_h [of p] tb [of p] s2
          by (auto simp: retag_def split: option.splits)
      qed
      ultimately show ?thesis by blast
    qed
  qed
qed

lemma search_loop_all_fail:
  "\<forall>w s t n srt. isl (fst (search_subreddit env w s t n srt)) \<Longrightarrow>
   fst (search_loop c env tk l subs acc st) = acc \<and>
   store (snd (search_loop c env tk l subs acc st)) = store st"
proof (induction subs arbitrary: st)
  case Nil
  then show ?case by simp
next
  case (Cons sub subs)
  obtain r w' where call: "search_subreddit env (world st) sub tk l ''relevance'' = (r, w')"
    by (cases "search_subreddit env (world st) sub tk l ''relevance''")
  with Cons.prems have "isl r" by (metis fst_conv)
  then obtain e where "r = Inl e" by (cases r) auto
  with call Cons.IH [OF Cons.prems] show ?case by simp
qed

lemma search_ticker_run:
  assumes "search_ticker c env tk so l st = (res, st')"
  shows "trace st' = trace st @ new_events st st'"
    and "res = concat (map found_posts (new_events st st'))"
    and "enabled c \<Longrightarrow> searched (new_events st st') = (case so of None \<Rightarrow> subreddits c | Some subs \<Rightarrow> subs)"
    and "paced (min_delay c) (fl (min_delay c * (3 / 2))) (new_events st st')"
    and "search_events tk l (new_events st st')"
    and "map_of (store st' p) = retag tk (last_source (new_events st st') p) (map_of (store st p))"
    and "replay env (world st) (new_events st st') = Some (world st')"
proof -
  have "\<exists>evs. trace st' = trace st @ evs
     \<and> res = concat (map found_posts evs)
     \<and> (enabled c \<longrightarrow> searched evs = (case so of None \<Rightarrow> subreddits c | Some subs \<Rightarrow> subs))
     \<and> paced (min_delay c) (fl (min_delay c * (3 / 2))) evs
     \<and> search_events tk l evs
     \<and> replay env (world st) evs = Some (world st')
     \<and> (\<forall>p. map_of (store st' p) = retag tk (last_source evs p) (map_of (store st p)))"
  proof (cases "enabled c")
    case False
    with assms have "res = []" "st' = st" by (simp_all add: search_ticker_def)
    with False show ?thesis by (simp add: retag_def search_events_def)
  next
    case True
    with assms have "search_loop c env tk l (case so of None \<Rightarrow> subreddits c | Some subs \<Rightarrow> subs) [] st = (res, st')"
      by (simp add: search_ticker_def)
    from search_loop_run [OF this] True show ?thesis by simp
  qed
  then obtain evs where evs: "trace st' = trace st @ evs"
     "res = concat (map found_posts evs)"
     "enabled c \<longrightarrow> searched evs = (case so of None \<Rightarrow> subreddits c | Some subs \<Rightarrow> subs)"
     "paced (min_delay c) (fl (min_delay c * (3 / 2))) evs"
     "search_events tk l evs"
     "replay env (world st) evs = Some (world st')"
     "\<forall>p. map_of (store st' p) = retag tk (last_source evs p) (map_of (store st p))"
    by blast
  have ne: "new_events st st' = evs" using evs(1) by (rule new_events_append)
  show "trace st' = trace st @ new_events st st'" using evs(1) ne by simp
  show "res = concat (map found_posts (new_events st st'))" using evs(2) ne by simp
  show "enabled c \<Longrightarrow> searched (new_events st st') = (case so of None \<Rightarrow> subreddits c | Some subs \<Rightarrow> subs)"
    using evs(3) ne by simp
  show "paced (min_delay c) (fl (min_delay c * (3 / 2))) (new_events st st')" using evs(4) ne by simp
  show "search_events tk l (new_events st st')" using evs(5) ne by simp
  show "map_of (store st' p) = retag tk (last_source (new_events st st') p) (map_of (store st p))"
    using evs(7) ne by simp
  show "replay env (world st) (new_events st st') = Some (world st')" using evs(6) ne by simp
qed

lemma search_ticker_all_fail:
  "\<forall>w s t n srt. isl (fst (search_subreddit env w s t n srt)) \<Longrightarrow>
   fst (search_ticker c env tk so l st) = [] \<and> store (snd (search_ticker c env tk so l st)) = store st"
  by (simp add: search_ticker_def search_loop_all_fail)

subsection \<open>The other methods of the facade\<close>





subsection \<open>Reports\<close>

lemma count_by_subreddit_sum:
  "sum_list (map snd (count_by_subreddit h ps d)) = sum_list (map snd d) + int (length ps)"
proof (induction ps arbitrary: d)
  case Nil
  then show ?case by simp
next
  case (Cons p ps)
  define sub where "sub = (case map_of (h p) ''subreddit'' of Some v \<Rightarrow> v | None \<Rightarrow> PStr ''unknown'')"
  define d1 where "d1 = (if map_of d sub = None then dict_set sub 0 d else d)"
  define d2 where "d2 = (case map_of d1 sub of Some n \<Rightarrow> dict_set sub (n + 1) d1 | None \<Rightarrow> d1)"
  have s1: "sum_list (map snd d1) = sum_list (map snd d)"
    by (simp add: d1_def sum_dict_set)
  obtain n where n: "map_of d1 sub = Some n"
    by (cases "map_of d sub") (auto simp: d1_def map_of_dict_set)
  have s2: "sum_list (map snd d2) = sum_list (map snd d1) + 1"
    using n by (simp add: d2_def sum_dict_set)
  have "count_by_subreddit h (p # ps) d = count_by_subreddit h ps d2"
    unfolding sub_def d1_def d2_def by (simp add: Let_def)
  with Cons.IH [of d2] s1 s2 show ?case by simp
qed

lemma sentiment_loop_reports:
  assumes "sentiment_loop c env l tks results st = (res, st')"
    and "\<forall>(t, r) \<in> set results. ticker r = t \<and> total_mentions r = int (length (posts r))
           \<and> sum_list (map snd (by_subreddit r)) = total_mentions r"
  shows "(\<forall>(t, r) \<in> set res. ticker r = t \<and> total_mentions r = int (length (posts r))
           \<and> sum_list (map snd (by_subreddit r)) = total_mentions r)
       \<and> fst ` set res = fst ` set results \<union> set tks"
  using assms
proof (induction tks arbitrary: results st)
  case Nil
  then show ?case by simp
next
  case (Cons tk tks)
  obtain ps st1 where step: "search_ticker c env tk None l st = (ps, st1)"
    by (cases "search_ticker c env tk None l st")
  define rep where "rep = \<lparr>ticker = tk, timestamp = now_isoformat env (world st1),
                total_mentions = int (length ps), posts = ps,
                by_subreddit = count_by_subreddit (store st1) ps []\<rparr>"
  from Cons.prems(1) step have rest: "sentiment_loop c env l tks (dict_set tk rep results) st1 = (res, st')"
    by (simp add: rep_def)
  have good: "ticker rep = tk \<and> total_mentions rep = int (length (posts rep))
       \<and> sum_list (map snd (by_subreddit rep)) = total_mentions rep"
    by (simp add: rep_def count_by_subreddit_sum)
  have "\<forall>(t, r) \<in> set (dict_set tk rep results). ticker r = t \<and> total_mentions r = int (length (posts r))
           \<and> sum_list (map snd (by_subreddit r)) = total_mentions r"
  proof
    fix x assume "x \<in> set (dict_set tk rep results)"
    with set_dict_set [of tk rep results] have "x = (tk, rep) \<or> x \<in> set results" by auto
    with good Cons.prems(2) show "case x of (t, r) \<Rightarrow> ticker r = t \<and> total_mentions r = int (length (posts r))
           \<and> sum_list (map snd (by_subreddit r)) = total_mentions r" by auto
  qed
  from Cons.IH [OF rest this] show ?case by (auto simp: keys_dict_set)
qed

subsection \<open>The loop of the scraper\<close>

lemma scrape_loop_Cons:
  "scrape_loop env tk m (sub # subs) r st =
     (case search_subreddit env (world st) sub tk m ''relevance'' of
        (x, w') \<Rightarrow>
          let st1 = st\<lparr>world := w', trace := trace st @ [Search sub tk m ''relevance'' x]\<rparr>;
              st2 = st1\<lparr>world := sleep_uniform env (world st1) 2 4, trace := trace st1 @ [Delay 2 4]\<rparr>
          in case x of
               Inl e \<Rightarrow> scrape_loop env tk m subs r st1
             | Inr xs \<Rightarrow>
                 let r1 = (if xs \<noteq> [] then
                             r\<lparr>s_by_subreddit := dict_set sub (int (length xs)) (s_by_subreddit r),
                               total_posts := total_posts r + int (length xs)\<rparr>
                           else r)
                 in if list_all is_post xs then
                      scrape_loop env tk m subs
                        (r1\<lparr>all_posts := all_posts r1 @ map (\<lambda>p. tagged_copy sub tk (store st p)) (posts_of xs)\<rparr>) st2
                    else scrape_loop env tk m subs r1 st1)"
proof -
  obtain x w' where call: "search_subreddit env (world st) sub tk m ''relevance'' = (x, w')"
    by (cases "search_subreddit env (world st) sub tk m ''relevance''")
  show ?thesis
  proof (cases x)
    case (Inl e)
    with call show ?thesis by (simp add: Let_def)
  next
    case (Inr xs)
    show ?thesis
    proof (cases "copy_posts sub tk (store st) xs")
      case (Inl e)
      with copy_posts_done [of sub tk "store st" xs] have "\<not> list_all is_post xs" by simp
      moreover from this have "xs \<noteq> []" by auto
      ultimately show ?thesis using call Inr Inl by (simp add: Let_def)
    next
      case ds: (Inr ds)
      with copy_posts_done [of sub tk "store st" xs] have ok: "list_all is_post xs" by simp
      from copy_posts_result [OF ds] have "ds = map (\<lambda>p. tagged_copy sub tk (store st p)) (posts_of xs)" .
      with ok call Inr ds show ?thesis by (cases "xs = []") (simp_all add: Let_def)
    qed
  qed
qed

lemma scrape_loop_run:
  "scrape_loop env tk m subs r st = (r', st') \<Longrightarrow>
   \<exists>evs. trace st' = trace st @ evs
     \<and> store st' = store st
     \<and> searched evs = subs
     \<and> replay env (world st) evs = Some (world st')
     \<and> all_posts r' = all_posts r @ map (\<lambda>(p, s). tagged_copy s tk (store st p)) (sources evs)
     \<and> (list_all well_formed evs \<longrightarrow> int (length (all_posts r')) - int (length (all_posts r)) = total_posts r' - total_posts r)
     \<and> int (length (all_posts r')) - int (length (all_posts r)) \<le> total_posts r' - total_posts r"
proof (induction subs arbitrary: r st)
  case Nil
  then show ?case by simp
next
  case (Cons sub subs)
  obtain x w' where call: "search_subreddit env (world st) sub tk m ''relevance'' = (x, w')"
    by (cases "search_subreddit env (world st) sub tk m ''relevance''")
  define st1 where "st1 = st\<lparr>world := w', trace := trace st @ [Search sub tk m ''relevance'' x]\<rparr>"
  define st2 where "st2 = st1\<lparr>world := sleep_uniform env (world st1) 2 4, trace := trace st1 @ [Delay 2 4]\<rparr>"
  let ?e = "Search sub tk m ''relevance'' x"
  have rp: "replay env (world st) (?e # es) = replay env w' es" for es
    using call by simp
  show ?case
  proof (cases x)
    case (Inl e)
    with Cons.prems call have "scrape_loop env tk m subs r st1 = (r', st')"
      by (simp add: st1_def)
    from Cons.IH [OF this] obtain evs where evs:
      "trace st' = trace st1 @ evs" "store st' = store st1" "searched evs = subs"
      "replay env (world st1) evs = Some (world st')"
      "all_posts r' = all_posts r @ map (\<lambda>(p, s). tagged_copy s tk (store st1 p)) (sources evs)"
      "list_all well_formed evs \<longrightarrow> int (length (all_posts r')) - int (length (all_posts r)) = total_posts r' - total_posts r"
      "int (length (all_posts r')) - int (length (all_posts r)) \<le> total_posts r' - total_posts r"
      by blast
    have "trace st' = trace st @ ?e # evs" using evs(1) by (simp add: st1_def)
    moreover have "store st' = store st" using evs(2) by (simp add: st1_def)
    moreover have "searched (?e # evs) = sub # subs" using evs(3) by simp
    moreover have "replay env (world st) (?e # evs) = Some (world st')"
      using evs(4) unfolding rp by (simp add: st1_def)
    moreover have "all_posts r' = all_posts r @ map (\<lambda>(p, s). tagged_copy s tk (store st p)) (sources (?e # evs))"
      using evs(5) Inl by (simp add: st1_def)
    moreover have "list_all well_formed (?e # evs) \<longrightarrow> int (length (all_posts r')) - int (length (all_posts r)) = total_posts r' - total_posts r"
      using evs(6) by simp
    ultimately show ?thesis using evs(7) by blast
  next
    case (Inr xs)
    define r1 where "r1 = (if xs \<noteq> [] then
                             r\<lparr>s_by_subreddit := dict_set sub (int (length xs)) (s_by_subreddit r),
                               total_posts := total_posts r + int (length xs)\<rparr>
                           else r)"
    have tp1: "total_posts r1 = total_posts r + int (length xs)" and ap1: "all_posts r1 = all_posts r"
      by (auto simp: r1_def)
    show ?thesis
    proof (cases "list_all is_post xs")
      case True
      define r2 where "r2 = r1\<lparr>all_posts := all_posts r1 @ map (\<lambda>p. tagged_copy sub tk (store st p)) (posts_of xs)\<rparr>"
      from Cons.prems call Inr True have "scrape_loop env tk m subs r2 st2 = (r', st')"
        unfolding scrape_loop_Cons by (simp add: st1_def st2_def r1_def r2_def Let_def)
      from Cons.IH [OF this] obtain evs where evs:
        "trace st' = trace st2 @ evs" "store st' = store st2" "searched evs = subs"
        "replay env (world st2) evs = Some (world st')"
        "all_posts r' = all_posts r2 @ map (\<lambda>(p, s). tagged_copy s tk (store st2 p)) (sources evs)"
        "list_all well_formed evs \<longrightarrow> int (length (all_posts r')) - int (length (all_posts r2)) = total_posts r' - total_posts r2"
        "int (length (all_posts r')) - int (length (all_posts r2)) \<le> total_posts r' - total_posts r2"
        by blast
      have s2: "store st2 = store st" "trace st2 = trace st @ [?e, Delay 2 4]"
        "world st2 = sleep_uniform env w' 2 4"
        by (simp_all add: st2_def st1_def)
      have ap2: "all_posts r2 = all_posts r @ map (\<lambda>p. tagged_copy sub tk (store st p)) (posts_of xs)"
        and tp2: "total_posts r2 = total_posts r + int (length xs)"
        by (simp_all add: r2_def ap1 tp1)
      have len2: "int (length (all_posts r2)) = int (length (all_posts r)) + int (length xs)"
        using True by (simp add: ap2 length_posts_of)
      let ?evs = "?e # Delay 2 4 # evs"
      have "trace st' = trace st @ ?evs" using evs(1) s2 by simp
      moreover have "store st' = store st" using evs(2) s2 by simp
      moreover have "searched ?evs = sub # subs" using evs(3) by simp
      moreover have "replay env (world st) ?evs = Some (world st')"
        using evs(4) s2 unfolding rp by simp
      moreover have "all_posts r' = all_posts r @ map (\<lambda>(p, s). tagged_copy s tk (store st p)) (sources ?evs)"
        using evs(5) Inr True ap2 s2 by (simp add: comp_def)
      moreover have "list_all well_formed ?evs \<longrightarrow> int (length (all_posts r')) - int (length (all_posts r)) = total_posts r' - total_posts r"
        using evs(6) len2 tp2 by simp
      moreover have "int (length (all_posts r')) - int (length (all_posts r)) \<le> total_posts r' - total_posts r"
        using evs(7) len2 tp2 by simp
      ultimately show ?thesis by blast
    next
      case False
      from Cons.prems call Inr False have "scrape_loop env tk m subs r1 st1 = (r', st')"
        unfolding scrape_loop_Cons by (simp add: st1_def st2_def r1_def Let_def)
      from Cons.IH [OF this] obtain evs where evs:
        "trace st' = trace st1 @ evs" "store st' = store st1" "searched evs = subs"
        "replay env (world st1) evs = Some (world st')"
        "all_posts r' = all_posts r1 @ map (\<lambda>(p, s). tagged_copy s tk (store st1 p)) (sources evs)"
        "int (length (all_posts r')) - int (length (all_posts r1)) \<le> total_posts r' - total_posts r1"
        by blast
      let ?evs = "?e # evs"
      have "trace st' = trace st @ ?evs" using evs(1) by (simp add: st1_def)
      moreover have "store st' = store st" using evs(2) by (simp add: st1_def)
      moreover have "searched ?evs = sub # subs" using evs(3) by simp
      moreover have "replay env (world st) ?evs = Some (world st')"
        using evs(4) unfolding rp by (simp add: st1_def)
      moreover have "all_posts r' = all_posts r @ map (\<lambda>(p, s). tagged_copy s tk (store st p)) (sources ?evs)"
        using evs(5) Inr False ap1 by (simp add: st1_def)
      moreover have "list_all well_formed ?evs \<longrightarrow> int (length (all_posts r')) - int (length (all_posts r)) = total_posts r' - total_posts r"
        using Inr False by simp
      moreover have "int (length (all_posts r')) - int (length (all_posts r)) \<le> total_posts r' - total_posts r"
        using evs(6) ap1 tp1 by simp
      ultimately show ?thesis by blast
    qed
  qed
qed

lemma scrape_loop_counts:
  "scrape_loop env tk m subs r st = (r', st') \<Longrightarrow> distinct subs \<Longrightarrow>
   set subs \<inter> fst ` set (s_by_subreddit r) = {} \<Longrightarrow>
   sum_list (map snd (s_by_subreddit r')) - sum_list (map snd (s_by_subreddit r))
       = total_posts r' - total_posts r"
proof (induction subs arbitrary: r st)
  case Nil
  then show ?case by simp
next
  case (Cons sub subs)
  obtain x w' where call: "search_subreddit env (world st) sub tk m ''relevance'' = (x, w')"
    by (cases "search_subreddit env (world st) sub tk m ''relevance''")
  define st1 where "st1 = st\<lparr>world := w', trace := trace st @ [Search sub tk m ''relevance'' x]\<rparr>"
  define st2 where "st2 = st1\<lparr>world := sleep_uniform env (world st1) 2 4, trace := trace st1 @ [Delay 2 4]\<rparr>"
  from Cons.prems have d: "distinct subs" and notin: "sub \<notin> set subs"
    and fresh: "sub \<notin> fst ` set (s_by_subreddit r)"
    and disj: "set subs \<inter> fst ` set (s_by_subreddit r) = {}" by auto
  show ?case
  proof (cases x)
    case (Inl e)
    with Cons.prems(1) call have "scrape_loop env tk m subs r st1 = (r', st')"
      by (simp add: st1_def)
    from Cons.IH [OF this d disj] show ?thesis .
  next
    case (Inr xs)
    define r1 where "r1 = (if xs \<noteq> [] then
                             r\<lparr>s_by_subreddit := dict_set sub (int (length xs)) (s_by_subreddit r),
                               total_posts := total_posts r + int (length xs)\<rparr>
                           else r)"
    define r2 where "r2 = r1\<lparr>all_posts := all_posts r1 @ map (\<lambda>p. tagged_copy sub tk (store st p)) (posts_of xs)\<rparr>"
    from Cons.prems(1) call Inr obtain ra sa where rest: "scrape_loop env tk m subs ra sa = (r', st')"
      and ra: "s_by_subreddit ra = s_by_subreddit r1" "total_posts ra = total_posts r1"
      unfolding scrape_loop_Cons
      by (cases "list_all is_post xs") (auto simp: r1_def Let_def)
    have "map_of (s_by_subreddit r) sub = None" using fresh by (simp add: map_of_eq_None_iff)
    then have sum1: "sum_list (map snd (s_by_subreddit r1)) = sum_list (map snd (s_by_subreddit r)) + int (length xs)"
      by (simp add: r1_def sum_dict_set)
    have tp1: "total_posts r1 = total_posts r + int (length xs)" by (simp add: r1_def)
    have "fst ` set (s_by_subreddit r1) \<subseteq> insert sub (fst ` set (s_by_subreddit r))"
      by (simp add: r1_def keys_dict_set subset_insertI)
    with notin disj have "set subs \<inter> fst ` set (s_by_subreddit r1) = {}" by blast
    with ra have disj1: "set subs \<inter> fst ` set (s_by_subreddit ra) = {}" by simp
    from Cons.IH [OF rest d disj1] sum1 tp1 ra show ?thesis by simp
  qed
qed

subsection \<open>Pacing of the five methods\<close>






subsection \<open>Evaluation\<close>

lemmas sample_defs = sample_posts_def sample_search_def sample_env_def sample_store_def
  sample_state_def sample_config_def sample_client_def

lemmas run_defs = search_ticker_def rate_limit_delay_def get_subreddit_posts_def
  get_post_details_def get_multi_subreddit_posts_def get_sentiment_data_def new_events_def Let_def

text \<open>The rounding at values checked against the floats of Python.\<close>

lemma fl_samples:
  "fl (1 / 10) = 3602879701896397 / 36028797018963968"
  "fl (60 / 7) = 4825285315039817 / 562949953421312"
  "fl (4825285315039817 / 562949953421312 * (3 / 2)) = 3618963986279863 / 281474976710656"
  "fl (2 ^ 53 + 1) = 2 ^ 53"
  "fl (2 ^ 53 + 3) = 2 ^ 53 + 4"
  "fl (60 / 2 ^ 53) = 15 / 2251799813685248"
  "fl 2 = 2" "fl 3 = 3" "fl (3 / 2) = 3 / 2" "fl 30 = 30" "fl 40 = 40" "fl 7 = 7"
  by code_simp+

section \<open>The claims\<close>

text \<open>
  C6. \<^verbatim>\<open>60.0 / self.rate_limit\<close> first converts the rate limit to a float, and that
  conversion raises \<^verbatim>\<open>OverflowError\<close> for an \<^verbatim>\<open>int\<close> as large as \<open>10 ^ 309\<close>: the
  constructor fails and no delay is computed.
\<close>

theorem huge_rate_limit_counterexample:
  "0 < (10::int) ^ 309
   \<and> RedditSentimentClient_init (sample_config\<lparr>cfg_rate_limit_per_minute := Some (10 ^ 309)\<rparr>) None True
       = Inl (OverflowError ''int too large to convert to float'')"
  by (simp add: RedditSentimentClient_init_def compute_min_delay_def float_of_int_def sample_config_def)

text \<open>
  C6, in the form that holds. With the collaborator importable, the constructor
  returns a client whose minimum delay is: the float quotient \<^verbatim>\<open>60.0 / r\<close>, that is
  the double nearest to 60 divided by the double nearest to \<open>r\<close>, for a configured rate
  limit \<open>0 < r < 2 ^ 1024 - 2 ^ 970\<close>; 2 for \<open>r \<le> 0\<close>; and 2 when the key
  \<^verbatim>\<open>rate_limit_per_minute\<close> is absent, since the default 30 gives \<open>60 / 30\<close>. From
  \<open>2 ^ 1024 - 2 ^ 970\<close> on it raises \<^verbatim>\<open>OverflowError\<close>.
\<close>

theorem min_delay_from_rate_limit:
  "map_sum id min_delay (RedditSentimentClient_init cfg getenv_proxy True) =
     (case cfg_rate_limit_per_minute cfg of
        None \<Rightarrow> Inr 2
      | Some r \<Rightarrow>
          if r \<le> 0 then Inr 2
          else if 2 ^ 1024 - 2 ^ 970 \<le> r then Inl (OverflowError ''int too large to convert to float'')
          else Inr (fl (60 / fl (of_int r))))"
proof (cases "cfg_rate_limit_per_minute cfg")
  case None
  have "compute_min_delay 30 = Inr 2"
    by (simp add: compute_min_delay_def float_of_int_def fl_samples)
  with None show ?thesis
    by (simp add: RedditSentimentClient_init_def init_yars_def)
next
  case (Some r)
  then show ?thesis
    by (simp add: RedditSentimentClient_init_def init_yars_def compute_min_delay_def float_of_int_def)
qed

theorem min_delay_from_rate_limit_witness:
  "map_sum id min_delay (RedditSentimentClient_init
       (sample_config\<lparr>cfg_rate_limit_per_minute := Some 40\<rparr>) None True) = Inr (3 / 2)
   \<and> map_sum id min_delay (RedditSentimentClient_init
       (sample_config\<lparr>cfg_rate_limit_per_minute := Some 7\<rparr>) None True)
       = Inr (4825285315039817 / 562949953421312)
   \<and> map_sum id min_delay (RedditSentimentClient_init
       (sample_config\<lparr>cfg_rate_limit_per_minute := Some (- 5)\<rparr>) None True) = Inr 2
   \<and> map_sum id min_delay (RedditSentimentClient_init
       (sample_config\<lparr>cfg_rate_limit_per_minute := None\<rparr>) None True) = Inr 2
   \<and> RedditSentimentClient_init sample_config None True = Inr sample_client"
  using min_delay_from_rate_limit [of "sample_config\<lparr>cfg_rate_limit_per_minute := Some 40\<rparr>" None]
    min_delay_from_rate_limit [of "sample_config\<lparr>cfg_rate_limit_per_minute := Some 7\<rparr>" None]
    min_delay_from_rate_limit [of "sample_config\<lparr>cfg_rate_limit_per_minute := Some (- 5)\<rparr>" None]
    min_delay_from_rate_limit [of "sample_config\<lparr>cfg_rate_limit_per_minute := None\<rparr>" None]
  by (simp add: fl_samples sample_config_def sample_client_def RedditSentimentClient_init_def
      init_yars_def compute_min_delay_def float_of_int_def)

text \<open>
  C10. \<^verbatim>\<open>search_ticker\<close> with the explicit empty list \<^verbatim>\<open>subreddits=[]\<close> returns the
  empty sequence and leaves the state as it was: no collaborator call, no delay. The
  test is \<^verbatim>\<open>subreddits is None\<close>, so the empty list does not fall back to the
  configured subreddits.
\<close>

theorem empty_subreddit_list_queries_nothing:
  "search_ticker c env tk (Some []) l st = ([], st)"
  by (simp add: search_ticker_def)

text \<open>
  C2. The \<^verbatim>\<open>try\<close> block of \<^verbatim>\<open>search_ticker\<close> also holds the tagging of the posts. A
  search of \<^verbatim>\<open>options\<close> comes back without raising, with \<^verbatim>\<open>None\<close> among its elements;
  the tagging raises on it and the whole list is left out of the result. And a client
  that is not enabled returns the empty dict from \<^verbatim>\<open>get_sentiment_data\<close>, not a report
  for \<^verbatim>\<open>TSLA\<close>.
\<close>

theorem malformed_result_dropped_counterexample:
  "fst (search_subreddit sample_env 1 ''options'' ''TSLA'' 20 ''relevance'')
     = Inr [Post 2, NonDict PNone, Post 3]
   \<and> fst (search_ticker sample_client sample_env ''TSLA'' (Some [''wallstreetbets'', ''options'']) 20
        sample_state) = []
   \<and> isl (fst (search_subreddit failing_env 0 ''stocks'' ''TSLA'' 20 ''relevance''))
   \<and> get_sentiment_data (sample_client\<lparr>enabled := False\<rparr>) failing_env [''TSLA''] 20 sample_state
     = ([], sample_state)"
  by (simp add: sample_defs failing_env_def run_defs)

text \<open>
  C2, in the form that holds. For an enabled client \<^verbatim>\<open>search_ticker\<close> queries every
  subreddit of its list, in order, whatever the outcome of the earlier calls; the log
  holds the answers the collaborator gave; and the result is the concatenation of the
  lists of the calls that returned a list of posts. A call that raised and a list with
  an element that is no dict contribute nothing (\<open>found_posts\<close> is empty there). The
  function has no error result: the handler of the loop catches what is raised. When
  the collaborator raises on every search, \<^verbatim>\<open>get_sentiment_data(["TSLA"])\<close> of an
  enabled client returns the single report with zero mentions, no posts and an empty
  \<^verbatim>\<open>by_subreddit\<close>.
\<close>

theorem failure_isolation:
  assumes "enabled c"
  shows "(search_ticker c env tk so l st = (res, st') \<longrightarrow>
            searched (new_events st st') = (case so of None \<Rightarrow> subreddits c | Some subs \<Rightarrow> subs)
          \<and> replay env (world st) (new_events st st') = Some (world st')
          \<and> res = concat (map found_posts (new_events st st')))
       \<and> ((\<forall>w s t n srt. isl (fst (search_subreddit env w s t n srt))) \<longrightarrow>
            get_sentiment_data c env [''TSLA''] l st = (R, st'') \<longrightarrow>
            R = [(''TSLA'', \<lparr>ticker = ''TSLA'', timestamp = now_isoformat env (world st''),
                             total_mentions = 0, posts = [], by_subreddit = []\<rparr>)])"
proof (intro conjI impI)
  assume run: "search_ticker c env tk so l st = (res, st')"
  show "searched (new_events st st') = (case so of None \<Rightarrow> subreddits c | Some subs \<Rightarrow> subs)"
    using search_ticker_run(3) [OF run assms] .
  show "replay env (world st) (new_events st st') = Some (world st')"
    using search_ticker_run(7) [OF run] .
  show "res = concat (map found_posts (new_events st st'))"
    using search_ticker_run(2) [OF run] .
next
  assume fail: "\<forall>w s t n srt. isl (fst (search_subreddit env w s t n srt))"
    and run: "get_sentiment_data c env [''TSLA''] l st = (R, st'')"
  obtain ps st1 where s: "search_ticker c env ''TSLA'' None l st = (ps, st1)"
    by (cases "search_ticker c env ''TSLA'' None l st")
  with search_ticker_all_fail [OF fail, of c "''TSLA''" None l st] have "ps = []" by simp
  with run s assms show "R = [(''TSLA'', \<lparr>ticker = ''TSLA'', timestamp = now_isoformat env (world st''),
                             total_mentions = 0, posts = [], by_subreddit = []\<rparr>)]"
    by (auto simp: get_sentiment_data_def)
qed

theorem failure_isolation_witness:
  "enabled sample_client
   \<and> fst (search_ticker sample_client sample_env ''TSLA''
        (Some [''wallstreetbets'', ''stocks'', ''options'', ''investing'']) 20 sample_state) = [0, 1, 1]
   \<and> new_events sample_state (snd (search_ticker sample_client sample_env ''TSLA''
        (Some [''wallstreetbets'', ''stocks'', ''options'', ''investing'']) 20 sample_state))
       = [Search ''wallstreetbets'' ''TSLA'' 20 ''relevance'' (Inl (Failure ''HTTP 429'')),
          Search ''stocks'' ''TSLA'' 20 ''relevance'' (Inr [Post 0, Post 1]), Delay 2 3,
          Search ''options'' ''TSLA'' 20 ''relevance'' (Inr [Post 2, NonDict PNone, Post 3]),
          Search ''investing'' ''TSLA'' 20 ''relevance'' (Inr [Post 1]), Delay 2 3]
   \<and> world (snd (search_ticker sample_client sample_env ''TSLA''
        (Some [''wallstreetbets'', ''stocks'', ''options'', ''investing'']) 20 sample_state)) = 4
   \<and> isl (fst (search_subreddit failing_env 0 ''stocks'' ''TSLA'' 20 ''relevance''))
   \<and> fst (get_sentiment_data sample_client failing_env [''TSLA''] 20 sample_state)
        = [(''TSLA'', \<lparr>ticker = ''TSLA'', timestamp = ''2025-01-01T00:00:00'',
                         total_mentions = 0, posts = [], by_subreddit = []\<rparr>)]"
  using failure_isolation [of sample_client sample_env "''TSLA''"
      "Some [''wallstreetbets'', ''stocks'', ''options'', ''investing'']" 20 sample_state
      "fst (search_ticker sample_client sample_env ''TSLA''
        (Some [''wallstreetbets'', ''stocks'', ''options'', ''investing'']) 20 sample_state)"
      "snd (search_ticker sample_client sample_env ''TSLA''
        (Some [''wallstreetbets'', ''stocks'', ''options'', ''investing'']) 20 sample_state)"]
    failure_isolation [of sample_client failing_env "''TSLA''" None 20 sample_state "[]" sample_state
      "fst (get_sentiment_data sample_client failing_env [''TSLA''] 20 sample_state)"
      "snd (get_sentiment_data sample_client failing_env [''TSLA''] 20 sample_state)"]
  by (simp add: sample_defs failing_env_def run_defs fl_samples)

text \<open>
  C9. A client that is not enabled returns from \<^verbatim>\<open>search_ticker\<close> before it looks at
  its subreddits: with \<^verbatim>\<open>reddit_enabled\<close> false and two subreddits configured,
  \<^verbatim>\<open>search_ticker\<close> with \<^verbatim>\<open>subreddits=None\<close> queries none of them.
\<close>

theorem disabled_client_queries_nothing_counterexample:
  "RedditSentimentClient_init (sample_config\<lparr>cfg_reddit_enabled := Some False\<rparr>) None True
     = Inr (sample_client\<lparr>config := sample_config\<lparr>cfg_reddit_enabled := Some False\<rparr>, enabled := False\<rparr>)
   \<and> cfg_subreddits (sample_config\<lparr>cfg_reddit_enabled := Some False\<rparr>)
     = Some [''wallstreetbets'', ''stocks'']
   \<and> search_ticker (sample_client\<lparr>config := sample_config\<lparr>cfg_reddit_enabled := Some False\<rparr>, enabled := False\<rparr>)
        sample_env ''TSLA'' None 20 sample_state = ([], sample_state)
   \<and> searched (new_events sample_state sample_state) = []"
  by (simp add: sample_defs run_defs fl_samples RedditSentimentClient_init_def init_yars_def
      compute_min_delay_def float_of_int_def)

text \<open>
  C9, in the form that holds. On an enabled client built by \<^verbatim>\<open>__init__\<close>,
  \<^verbatim>\<open>search_ticker\<close> called with \<^verbatim>\<open>subreddits=None\<close> queries exactly the configured
  subreddit list (the value of the key \<^verbatim>\<open>subreddits\<close>, or the default of \<^verbatim>\<open>__init__\<close>
  when the key is absent), in its order: the search calls of the log have these
  subreddits, every call of the log is a search for the ticker with the given limit,
  the log holds the answers the collaborator gave from the starting world on, and the
  returned posts are those of \<open>sources\<close>, which lists them call by call.
\<close>

theorem default_subreddits_in_configured_order:
  assumes "RedditSentimentClient_init cfg getenv_proxy yars_found = Inr c"
    and "enabled c"
    and "search_ticker c env tk None l st = (res, st')"
  shows "searched (new_events st st') =
           (case cfg_subreddits cfg of Some subs \<Rightarrow> subs | None \<Rightarrow> [''wallstreetbets'', ''stocks''])
         \<and> search_events tk l (new_events st st')
         \<and> replay env (world st) (new_events st st') = Some (world st')
         \<and> res = map fst (sources (new_events st st'))"
proof -
  from assms(1) have "subreddits c =
      (case cfg_subreddits cfg of Some subs \<Rightarrow> subs | None \<Rightarrow> [''wallstreetbets'', ''stocks''])"
    by (auto simp: RedditSentimentClient_init_def init_yars_def Let_def split: if_splits sum.splits)
  moreover have "searched (new_events st st') = subreddits c"
    using search_ticker_run(3) [OF assms(3) assms(2)] by simp
  moreover have "res = map fst (sources (new_events st st'))"
    using search_ticker_run(2) [OF assms(3)] by (simp add: found_posts_sources)
  ultimately show ?thesis
    using search_ticker_run(5) [OF assms(3)] search_ticker_run(7) [OF assms(3)] by simp
qed

theorem default_subreddits_in_configured_order_witness:
  "RedditSentimentClient_init sample_config None True = Inr sample_client
   \<and> enabled sample_client
   \<and> cfg_subreddits sample_config = Some [''wallstreetbets'', ''stocks'']
   \<and> fst (search_ticker sample_client sample_env ''TSLA'' None 20 sample_state) = [0, 1]
   \<and> new_events sample_state (snd (search_ticker sample_client sample_env ''TSLA'' None 20 sample_state))
       = [Search ''wallstreetbets'' ''TSLA'' 20 ''relevance'' (Inl (Failure ''HTTP 429'')),
          Search ''stocks'' ''TSLA'' 20 ''relevance'' (Inr [Post 0, Post 1]), Delay 2 3]
   \<and> world (snd (search_ticker sample_client sample_env ''TSLA'' None 20 sample_state)) = 2
   \<and> replay sample_env 0
        [Search ''wallstreetbets'' ''TSLA'' 20 ''relevance'' (Inl (Failure ''HTTP 429'')),
         Search ''stocks'' ''TSLA'' 20 ''relevance'' (Inr [Post 0, Post 1]), Delay 2 3] = Some 2"
  using default_subreddits_in_configured_order [of sample_config None True sample_client
      sample_env "''TSLA''" 20 sample_state
      "fst (search_ticker sample_client sample_env ''TSLA'' None 20 sample_state)"
      "snd (search_ticker sample_client sample_env ''TSLA'' None 20 sample_state)"]
  by (simp add: sample_defs run_defs fl_samples RedditSentimentClient_init_def init_yars_def
      compute_min_delay_def float_of_int_def)

text \<open>
  C7. The tags of \<^verbatim>\<open>search_ticker\<close> are written into the post objects themselves.
  When the collaborator returns the same object for two subreddits, the second
  assignment overwrites the first: in the sample environment post 1 is returned for
  \<^verbatim>\<open>stocks\<close> and again for \<^verbatim>\<open>investing\<close>, the result holds it twice, and its
  \<^verbatim>\<open>subreddit\<close> field ends as \<^verbatim>\<open>investing\<close> at both positions, also at the one that
  came from the call for \<^verbatim>\<open>stocks\<close>.
\<close>

theorem shared_post_counterexample:
  "fst (search_ticker sample_client sample_env ''TSLA'' (Some [''stocks'', ''investing'']) 20 sample_state)
     = [0, 1, 1]
   \<and> sources (new_events sample_state
        (snd (search_ticker sample_client sample_env ''TSLA'' (Some [''stocks'', ''investing'']) 20 sample_state)))
     = [(0, ''stocks''), (1, ''stocks''), (1, ''investing'')]
   \<and> map_of (store (snd (search_ticker sample_client sample_env ''TSLA''
         (Some [''stocks'', ''investing'']) 20 sample_state)) 1) ''subreddit''
     = Some (PStr ''investing'')"
  by (simp add: sample_defs run_defs)

text \<open>
  C7, in the form that holds. When no post object is returned by the calls for two
  different subreddits of one run, every post of the returned sequence has
  \<^verbatim>\<open>ticker_searched\<close> equal to the requested ticker and \<^verbatim>\<open>subreddit\<close> equal to the
  subreddit of the call that returned it. The returned sequence is \<open>map fst\<close> of
  \<open>sources\<close>, so each position of the result is paired with the subreddit of its call.
  The condition is on \<open>returned_posts\<close>, all posts the calls returned, since the posts
  in front of an element that is no dict are tagged although their list is left out of
  the result.
\<close>

theorem search_ticker_tags:
  assumes "search_ticker c env tk so l st = (res, st')"
    and "\<forall>(p, s) \<in> set (returned_posts (new_events st st')).
           \<forall>(p', s') \<in> set (returned_posts (new_events st st')). p = p' \<longrightarrow> s = s'"
  shows "res = map fst (sources (new_events st st'))
       \<and> (\<forall>(p, s) \<in> set (sources (new_events st st')).
             map_of (store st' p) ''subreddit'' = Some (PStr s)
           \<and> map_of (store st' p) ''ticker_searched'' = Some (PStr tk))"
proof (intro conjI ballI)
  show "res = map fst (sources (new_events st st'))"
    using search_ticker_run(2) [OF assms(1)] by (simp add: found_posts_sources)
next
  fix x assume x: "x \<in> set (sources (new_events st st'))"
  obtain p s where ps: "x = (p, s)" by (cases x)
  from x ps sources_last_source obtain s' where s': "last_source (new_events st st') p = Some s'"
    by fastforce
  then have "(p, s') \<in> set (returned_posts (new_events st st'))" by (rule last_source_returned)
  moreover from x ps sources_returned have "(p, s) \<in> set (returned_posts (new_events st st'))"
    by blast
  ultimately have "s = s'" using assms(2) by blast
  with s' search_ticker_run(6) [OF assms(1), of p]
  have "map_of (store st' p) = (map_of (store st p))(''subreddit'' \<mapsto> PStr s, ''ticker_searched'' \<mapsto> PStr tk)"
    by (simp add: retag_def)
  then show "case x of (p, s) \<Rightarrow> map_of (store st' p) ''subreddit'' = Some (PStr s)
           \<and> map_of (store st' p) ''ticker_searched'' = Some (PStr tk)"
    using ps by simp
qed

theorem search_ticker_tags_witness:
  "fst (search_ticker sample_client sample_env ''TSLA'' (Some [''wallstreetbets'', ''stocks'', ''options''])
        20 sample_state) = [0, 1]
   \<and> returned_posts (new_events sample_state
        (snd (search_ticker sample_client sample_env ''TSLA'' (Some [''wallstreetbets'', ''stocks'', ''options''])
        20 sample_state)))
     = [(0, ''stocks''), (1, ''stocks''), (2, ''options''), (3, ''options'')]
   \<and> sources (new_events sample_state
        (snd (search_ticker sample_client sample_env ''TSLA'' (Some [''wallstreetbets'', ''stocks'', ''options''])
        20 sample_state)))
     = [(0, ''stocks''), (1, ''stocks'')]
   \<and> map_of (store (snd (search_ticker sample_client sample_env ''TSLA''
        (Some [''wallstreetbets'', ''stocks'', ''options'']) 20 sample_state)) 0)
        ''subreddit'' = Some (PStr ''stocks'')
   \<and> map_of (store (snd (search_ticker sample_client sample_env ''TSLA''
        (Some [''wallstreetbets'', ''stocks'', ''options'']) 20 sample_state)) 1)
        ''ticker_searched'' = Some (PStr ''TSLA'')"
  using search_ticker_tags [of sample_client sample_env "''TSLA''"
      "Some [''wallstreetbets'', ''stocks'', ''options'']" 20 sample_state
      "fst (search_ticker sample_client sample_env ''TSLA''
         (Some [''wallstreetbets'', ''stocks'', ''options'']) 20 sample_state)"
      "snd (search_ticker sample_client sample_env ''TSLA''
         (Some [''wallstreetbets'', ''stocks'', ''options'']) 20 sample_state)"]
  by (simp add: sample_defs run_defs)




text \<open>
  C3. \<^verbatim>\<open>__init__\<close> reads the switch of the client from the key
  \<^verbatim>\<open>reddit_enabled\<close> and never looks at the key \<^verbatim>\<open>enabled\<close>. A configuration with
  \<^verbatim>\<open>enabled\<close> false and no \<^verbatim>\<open>reddit_enabled\<close> gives an enabled client, and its
  \<^verbatim>\<open>get_subreddit_posts\<close> calls the collaborator and returns what it found.
\<close>

theorem enabled_key_ignored_counterexample:
  "cfg_enabled enabled_false_config = Some False
   \<and> RedditSentimentClient_init enabled_false_config None True
       = Inr (sample_client\<lparr>config := enabled_false_config\<rparr>)
   \<and> fst (get_subreddit_posts (sample_client\<lparr>config := enabled_false_config\<rparr>) sample_env
           ''stocks'' 50 ''hot'' ''day'' sample_state) = [0, 1]
   \<and> trace (snd (get_subreddit_posts (sample_client\<lparr>config := enabled_false_config\<rparr>) sample_env
           ''stocks'' 50 ''hot'' ''day'' sample_state))
       = [Fetch ''stocks'' 50 ''hot'' ''day'' (Inr [0, 1]), Delay 2 3]"
  by (simp add: sample_defs enabled_false_config_def run_defs fl_samples RedditSentimentClient_init_def
      init_yars_def compute_min_delay_def float_of_int_def)

text \<open>
  C3, in the form that holds. For a client constructed from a configuration in which
  \<^verbatim>\<open>reddit_enabled\<close> is false, each of the five public fetch methods returns its
  empty result (the empty list, the empty dict, or \<^verbatim>\<open>None\<close> for
  \<^verbatim>\<open>get_post_details\<close>) and leaves the state as it was: the collaborator is not
  called and nothing is logged.
\<close>

theorem reddit_disabled_no_collaborator_call:
  assumes "RedditSentimentClient_init cfg getenv_proxy yars_found = Inr c"
    and "cfg_reddit_enabled cfg = Some False"
  shows "get_subreddit_posts c env s l cat tf st = ([], st)
       \<and> search_ticker c env tk so l st = ([], st)
       \<and> get_post_details c env pl st = (None, st)
       \<and> get_multi_subreddit_posts c env so l cat st = ([], st)
       \<and> get_sentiment_data c env tks l st = ([], st)"
proof -
  from assms have "\<not> enabled c"
    by (auto simp: RedditSentimentClient_init_def init_yars_def Let_def split: if_splits sum.splits)
  then show ?thesis
    by (simp add: get_subreddit_posts_def search_ticker_def get_post_details_def
        get_multi_subreddit_posts_def get_sentiment_data_def)
qed

theorem reddit_disabled_no_collaborator_call_witness:
  "RedditSentimentClient_init (sample_config\<lparr>cfg_reddit_enabled := Some False\<rparr>) None True
     = Inr (sample_client\<lparr>config := sample_config\<lparr>cfg_reddit_enabled := Some False\<rparr>, enabled := False\<rparr>)
   \<and> cfg_reddit_enabled (sample_config\<lparr>cfg_reddit_enabled := Some False\<rparr>) = Some False
   \<and> get_subreddit_posts (sample_client\<lparr>config := sample_config\<lparr>cfg_reddit_enabled := Some False\<rparr>, enabled := False\<rparr>)
        sample_env ''stocks'' 20 ''hot'' ''day'' sample_state = ([], sample_state)
   \<and> get_sentiment_data (sample_client\<lparr>config := sample_config\<lparr>cfg_reddit_enabled := Some False\<rparr>, enabled := False\<rparr>)
        sample_env [''TSLA''] 20 sample_state = ([], sample_state)"
  using reddit_disabled_no_collaborator_call [of "sample_config\<lparr>cfg_reddit_enabled := Some False\<rparr>" None True
      "sample_client\<lparr>config := sample_config\<lparr>cfg_reddit_enabled := Some False\<rparr>, enabled := False\<rparr>"
      sample_env "''stocks''" 20 "''hot''" "''day''" sample_state "''TSLA''" None "''/r/x''" "[''TSLA'']"]
  by (simp add: sample_defs fl_samples RedditSentimentClient_init_def init_yars_def
      compute_min_delay_def float_of_int_def)



text \<open>
  C1. \<^verbatim>\<open>scrape_ticker_sentiment\<close> writes the count of a subreddit and adds to
  \<^verbatim>\<open>total_posts\<close> before it builds the copies of the posts, all inside one \<^verbatim>\<open>try\<close>
  block. The search of \<^verbatim>\<open>options\<close> returns three elements, one of them \<^verbatim>\<open>None\<close>: the
  counts go up by three, the copying raises, and \<^verbatim>\<open>all_posts\<close> gets none of the three.
  The result has \<^verbatim>\<open>total_posts\<close> 6 and three posts.
\<close>

theorem scraper_counts_diverge_counterexample:
  "total_posts (fst (scrape_ticker_sentiment (StockSentimentScraper_init None True) sample_env
       ''TSLA'' 30 sample_state)) = 6
   \<and> length (all_posts (fst (scrape_ticker_sentiment (StockSentimentScraper_init None True) sample_env
       ''TSLA'' 30 sample_state))) = 3
   \<and> s_by_subreddit (fst (scrape_ticker_sentiment (StockSentimentScraper_init None True) sample_env
       ''TSLA'' 30 sample_state)) = [(''stocks'', 2), (''investing'', 1), (''options'', 3)]"
  by (simp add: sample_defs scrape_ticker_sentiment_def StockSentimentScraper_init_def tagged_copy_def)

text \<open>
  C1, in the form that holds. For every list of tickers, every environment and every
  starting state, every report in the dict returned by \<^verbatim>\<open>get_sentiment_data\<close> has
  \<^verbatim>\<open>total_mentions\<close> equal to the length of \<^verbatim>\<open>posts\<close>, and the counts of \<^verbatim>\<open>by_subreddit\<close>
  add up to \<^verbatim>\<open>total_mentions\<close>; the report stands under its own ticker, and an enabled
  client returns a report for every ticker of the list. In the result of
  \<^verbatim>\<open>scrape_ticker_sentiment\<close> of a scraper built by its \<^verbatim>\<open>__init__\<close> the counts of
  \<^verbatim>\<open>by_subreddit\<close> add up to \<^verbatim>\<open>total_posts\<close>, and \<^verbatim>\<open>total_posts\<close> is the length of
  \<^verbatim>\<open>all_posts\<close> when every list the collaborator returned during the call holds posts
  only.
\<close>

theorem report_counts_consistent:
  "(\<forall>(t, r) \<in> set (fst (get_sentiment_data c env tks l st)).
       ticker r = t
     \<and> total_mentions r = int (length (posts r))
     \<and> sum_list (map snd (by_subreddit r)) = total_mentions r)
   \<and> (enabled c \<longrightarrow> fst ` set (fst (get_sentiment_data c env tks l st)) = set tks)
   \<and> sum_list (map snd (s_by_subreddit
         (fst (scrape_ticker_sentiment (StockSentimentScraper_init px vb) env tk m st))))
       = total_posts (fst (scrape_ticker_sentiment (StockSentimentScraper_init px vb) env tk m st))
   \<and> (list_all well_formed
         (new_events st (snd (scrape_ticker_sentiment (StockSentimentScraper_init px vb) env tk m st))) \<longrightarrow>
       total_posts (fst (scrape_ticker_sentiment (StockSentimentScraper_init px vb) env tk m st))
         = int (length (all_posts (fst (scrape_ticker_sentiment (StockSentimentScraper_init px vb) env tk m st)))))"
proof -
  have A: "(\<forall>(t, r) \<in> set (fst (get_sentiment_data c env tks l st)).
       ticker r = t
     \<and> total_mentions r = int (length (posts r))
     \<and> sum_list (map snd (by_subreddit r)) = total_mentions r)
   \<and> (enabled c \<longrightarrow> fst ` set (fst (get_sentiment_data c env tks l st)) = set tks)"
  proof (cases "enabled c")
    case False
    then show ?thesis by (simp add: get_sentiment_data_def)
  next
    case True
    obtain res st' where eq: "sentiment_loop c env l tks [] st = (res, st')"
      by (cases "sentiment_loop c env l tks [] st")
    from sentiment_loop_reports [OF eq] True show ?thesis
      by (simp add: get_sentiment_data_def eq)
  qed
  let ?r0 = "\<lparr>s_ticker = tk, s_timestamp = now_isoformat env (world st), total_posts = 0,
        s_by_subreddit = [], all_posts = []\<rparr>"
  let ?subs = "[''wallstreetbets'', ''stocks'', ''investing'', ''stockmarket'', ''options'']"
  obtain r' st' where eq: "scrape_loop env tk m ?subs ?r0 st = (r', st')"
    by (cases "scrape_loop env tk m ?subs ?r0 st")
  have call: "scrape_ticker_sentiment (StockSentimentScraper_init px vb) env tk m st = (r', st')"
    using eq by (simp add: scrape_ticker_sentiment_def StockSentimentScraper_init_def del: scrape_loop.simps)
  have "distinct ?subs" by simp
  moreover have "set ?subs \<inter> fst ` set (s_by_subreddit ?r0) = {}" by simp
  ultimately have "sum_list (map snd (s_by_subreddit r')) - sum_list (map snd (s_by_subreddit ?r0))
       = total_posts r' - total_posts ?r0"
    by (rule scrape_loop_counts [OF eq])
  then have B: "sum_list (map snd (s_by_subreddit r')) = total_posts r'" by simp
  from scrape_loop_run [OF eq] obtain evs where evs:
    "trace st' = trace st @ evs"
    "list_all well_formed evs \<longrightarrow> int (length (all_posts r')) - int (length (all_posts ?r0)) = total_posts r' - total_posts ?r0"
    by blast
  have ne: "new_events st st' = evs" using evs(1) by (rule new_events_append)
  from evs(2) ne have C:
    "list_all well_formed (new_events st st') \<longrightarrow> total_posts r' = int (length (all_posts r'))"
    by simp
  from A B C show ?thesis unfolding call by simp
qed

theorem report_counts_consistent_witness:
  "fst (get_sentiment_data sample_client sample_env [''TSLA''] 20 sample_state)
     = [(''TSLA'', \<lparr>ticker = ''TSLA'', timestamp = ''2025-01-01T00:00:00'', total_mentions = 2,
                      posts = [0, 1], by_subreddit = [(PStr ''stocks'', 2)]\<rparr>)]
   \<and> enabled sample_client
   \<and> new_events sample_state (snd (scrape_ticker_sentiment (StockSentimentScraper_init None True)
         clean_env ''TSLA'' 30 sample_state))
     = [Search ''wallstreetbets'' ''TSLA'' 30 ''relevance'' (Inl (Failure ''HTTP 429'')),
        Search ''stocks'' ''TSLA'' 30 ''relevance'' (Inr [Post 0, Post 1]), Delay 2 4,
        Search ''investing'' ''TSLA'' 30 ''relevance'' (Inr [Post 1]), Delay 2 4,
        Search ''stockmarket'' ''TSLA'' 30 ''relevance'' (Inr []), Delay 2 4,
        Search ''options'' ''TSLA'' 30 ''relevance'' (Inr []), Delay 2 4]
   \<and> total_posts (fst (scrape_ticker_sentiment (StockSentimentScraper_init None True) clean_env
         ''TSLA'' 30 sample_state)) = 3
   \<and> s_by_subreddit (fst (scrape_ticker_sentiment (StockSentimentScraper_init None True) clean_env
         ''TSLA'' 30 sample_state)) = [(''stocks'', 2), (''investing'', 1)]
   \<and> length (all_posts (fst (scrape_ticker_sentiment (StockSentimentScraper_init None True) clean_env
         ''TSLA'' 30 sample_state))) = 3"
  using report_counts_consistent [where c = sample_client and env = sample_env and tks = "[''TSLA'']"
      and l = 20 and st = sample_state and px = None and vb = True and tk = "''TSLA''" and m = 30]
    report_counts_consistent [where c = sample_client and env = clean_env and tks = "[''TSLA'']"
      and l = 20 and st = sample_state and px = None and vb = True and tk = "''TSLA''" and m = 30]
  by (simp add: sample_defs clean_env_def run_defs fl_samples scrape_ticker_sentiment_def
      StockSentimentScraper_init_def tagged_copy_def)




end
